theory Spec2Isabelle
  imports Main "HOL-Library.Sublist" "HOL-Library.AList"
begin

section \<open>Errors and JavaScript truthiness\<close>

text \<open>
  A rejected promise or a thrown exception is a value of type \<open>error\<close>. An error raised
  by one of the service clients carries a \<open>code\<close> string; a JavaScript \<open>TypeError\<close>
  (reading a property of \<open>undefined\<close>) and a \<open>RangeError\<close> (formatting an invalid date)
  have no \<open>code\<close> property.
\<close>

datatype error = ServiceError string | TypeError | RangeError

fun code :: "error \<Rightarrow> string option" where
  "code (ServiceError c) = Some c"
| "code TypeError = None"
| "code RangeError = None"

text \<open>
  An optional string models a value that is a string, \<open>null\<close> or \<open>undefined\<close>.
  JavaScript treats \<open>null\<close>, \<open>undefined\<close> and the empty string as false in a condition.
\<close>

fun truthy :: "string option \<Rightarrow> bool" where
  "truthy None = False"
| "truthy (Some s) = (s \<noteq> [])"

section \<open>Shard iterator acquisition (polling-consumer.js, getShardIterator)\<close>

record iterator_params =
  ShardId :: string
  ShardIteratorType :: string
  StreamName :: string
  StartingSequenceNumber :: "string option"

text \<open>
  The Kinesis client is a parameter: it maps the request to a rejection or to the
  \<open>ShardIterator\<close> field of the response (absent when \<open>None\<close>). The function returns its
  result together with the requests it sent, in order. Calls to the logger are not modelled.
\<close>

definition iteratorParams :: "string \<Rightarrow> string \<Rightarrow> string \<Rightarrow> string option \<Rightarrow> iterator_params" where
  "iteratorParams streamName shardId initialPositionInStream sequenceNumber =
     \<lparr> ShardId = shardId,
       ShardIteratorType =
         (if truthy sequenceNumber then ''AFTER_SEQUENCE_NUMBER'' else initialPositionInStream),
       StreamName = streamName,
       StartingSequenceNumber = (if truthy sequenceNumber then sequenceNumber else None) \<rparr>"

text \<open>The destructuring default \<open>{ ShardIterator = '' }\<close>.\<close>

fun orEmpty :: "string option \<Rightarrow> string" where
  "orEmpty None = []"
| "orEmpty (Some i) = i"

function getShardIterator ::
  "(iterator_params \<Rightarrow> error + string option) \<Rightarrow> string \<Rightarrow> string \<Rightarrow> string \<Rightarrow>
     string option \<Rightarrow> (error + string) \<times> iterator_params list" where
  "getShardIterator client streamName shardId initialPositionInStream sequenceNumber =
     (let params = iteratorParams streamName shardId initialPositionInStream sequenceNumber
      in case client params of
           Inr ShardIterator \<Rightarrow> (Inr (orEmpty ShardIterator), [params])
         | Inl err \<Rightarrow>
             if code err = Some ''InvalidArgumentException'' \<and> truthy sequenceNumber
             then (case getShardIterator client streamName shardId initialPositionInStream None
                   of (r, reqs) \<Rightarrow> (r, params # reqs))
             else (Inl err, [params]))"
  by pat_completeness auto
termination
  by (relation "measure (\<lambda>(c, sn, si, ip, sq). if truthy sq then 1 else 0)") auto

declare getShardIterator.simps [simp del]

section \<open>Shard lineage (stream.js, getStreamShards)\<close>

text \<open>
  One element of the \<open>Shards\<close> array of a \<open>listShards\<close> response. \<open>ParentShardId\<close> is
  optional in the response; \<open>SequenceNumberRange.StartingSequenceNumber\<close> is flattened
  into one field.
\<close>

record shard_listing =
  ListedShardId :: string
  ParentShardId :: "string option"
  ListedStartingSequenceNumber :: string

record shard_data =
  parent :: "string option"
  startingSequenceNumber :: string

text \<open>
  A JavaScript object with string keys is an association list with distinct keys, in the
  order in which \<open>Object.keys\<close> enumerates them: \<open>Object.keys\<close> is \<open>map fst\<close>, reading an
  own property is \<open>map_of\<close>, and assigning an existing property is \<open>AList.update\<close> (the key
  keeps its position).
\<close>

type_synonym shards_data = "(string \<times> shard_data) list"

text \<open>
  The own keys of an object are enumerated with the array indices first, in ascending
  numeric order, and the other strings after them, in the order of their creation. An array
  index is the canonical decimal numeral of an integer below \<open>2^32 - 1\<close>.
\<close>

definition decimal :: "string \<Rightarrow> nat" where
  "decimal s = foldl (\<lambda>n c. 10 * n + (of_char c - 48)) 0 s"

definition arrayIndex :: "string \<Rightarrow> bool" where
  "arrayIndex k =
     (k \<noteq> [] \<and> list_all (\<lambda>c. c \<in> set ''0123456789'') k \<and>
      (k = ''0'' \<or> hd k \<noteq> CHR ''0'') \<and> decimal k < 4294967295)"

definition enumerationOrder :: "(string \<times> 'a) list \<Rightarrow> (string \<times> 'a) list" where
  "enumerationOrder obj =
     sort_key (\<lambda>(k, v). decimal k) (filter (\<lambda>(k, v). arrayIndex k) obj) @
     filter (\<lambda>(k, v). \<not> arrayIndex k) obj"

text \<open>
  \<open>Object.fromEntries\<close>: the properties are created in the order of the entries, a repeated
  key keeps its place and takes the later value.
\<close>

definition fromEntries :: "(string \<times> 'a) list \<Rightarrow> (string \<times> 'a) list" where
  "fromEntries es = enumerationOrder (foldl (\<lambda>obj (k, v). AList.update k v obj) [] es)"

text \<open>
  The properties that every object inherits from \<open>Object.prototype\<close>. Each of them is a
  function or an object, so a read \<open>obj[k]\<close> of one of these names is truthy even when
  \<open>obj\<close> has no own property \<open>k\<close>.
\<close>

definition objectPrototype :: "string list" where
  "objectPrototype =
     [''constructor'', ''__defineGetter__'', ''__defineSetter__'', ''hasOwnProperty'',
      ''__lookupGetter__'', ''__lookupSetter__'', ''isPrototypeOf'',
      ''propertyIsEnumerable'', ''toString'', ''valueOf'', ''__proto__'',
      ''toLocaleString'']"

definition shardEntry :: "shard_listing \<Rightarrow> string \<times> shard_data" where
  "shardEntry s =
     (ListedShardId s,
      \<lparr> parent = (if truthy (ParentShardId s) then ParentShardId s else None),
        startingSequenceNumber = ListedStartingSequenceNumber s \<rparr>)"

text \<open>
  The test \<open>parent && !shards[parent]\<close> of the \<open>forEach\<close> callback. The read
  \<open>shards[parent]\<close> finds an own property, which is an object, or else a property
  inherited from \<open>Object.prototype\<close>; it is falsy only when it finds neither.
\<close>

definition orphaned :: "shards_data \<Rightarrow> shard_data \<Rightarrow> bool" where
  "orphaned shards shard =
     (truthy (parent shard) \<and>
      (case parent shard of
         None \<Rightarrow> False
       | Some p \<Rightarrow> map_of shards p = None \<and> p \<notin> set objectPrototype))"

text \<open>The body of the \<open>forEach\<close> callback: it mutates the entry stored under \<open>sid\<close>.\<close>

definition eraseMissingParent :: "shards_data \<Rightarrow> string \<Rightarrow> shards_data" where
  "eraseMissingParent shards sid =
     (case map_of shards sid of
        None \<Rightarrow> shards
      | Some shard \<Rightarrow>
          if orphaned shards shard
          then AList.update sid (shard\<lparr>parent := None\<rparr>) shards
          else shards)"

definition getStreamShards :: "shard_listing list \<Rightarrow> shards_data" where
  "getStreamShards Shards =
     (let shards = fromEntries (map shardEntry Shards)
      in foldl eraseMissingParent shards (map fst shards))"

section \<open>The coordination document and the key-value client\<close>

text \<open>
  The coordination document is a tree of attribute values. \<open>VTime t\<close> stands for the
  ISO-8601 string of the instant \<open>t\<close> (milliseconds since the epoch), as produced by
  \<open>toISOString\<close> and read back by \<open>new Date(...).getTime()\<close>; \<open>VStr\<close> is any other
  string. A map is an association list with distinct keys.
\<close>

datatype val = VNull | VBool bool | VNum int | VStr string | VTime int
  | VMap "(string \<times> val) list"

type_synonym path = "string list"

text \<open>
  A time value is valid within 8.64e15 milliseconds of the epoch: \<open>new Date(t).getTime()\<close>
  is \<open>NaN\<close> (here \<open>None\<close>) for any other \<open>t\<close>, and \<open>new Date(t).toISOString()\<close> throws a
  \<open>RangeError\<close>.
\<close>

definition timeClip :: "int \<Rightarrow> int option" where
  "timeClip t = (if \<bar>t\<bar> \<le> 8640000000000000 then Some t else None)"

definition toISOString :: "int \<Rightarrow> error + val" where
  "toISOString t = (case timeClip t of None \<Rightarrow> Inl RangeError | Some t' \<Rightarrow> Inr (VTime t'))"

fun optStr :: "string option \<Rightarrow> val" where
  "optStr None = VNull"
| "optStr (Some s) = VStr s"

fun get_path :: "path \<Rightarrow> val \<Rightarrow> val option" where
  "get_path [] v = Some v"
| "get_path (k # ks) (VMap m) = (case map_of m k of None \<Rightarrow> None | Some c \<Rightarrow> get_path ks c)"
| "get_path (k # ks) _ = None"

text \<open>
  Modelled from the spec: the update operation of the coordination KV client
  (\<open>dynamodb-client.js\<close> and the store behind it are not part of the sources). The spec
  gives \<open>update(key, {updateExpr, conditionExpr, values})\<close> with a predicate whose failure
  is a distinct error kind; the expressions the State Store builds are \<open>SET path = value\<close>
  and \<open>REMOVE path\<close> actions under a condition \<open>attribute_not_exists(path)\<close> or
  \<open>path = value\<close>. Expression attribute names are resolved: a path is the list of the
  attribute names it stands for. An action on a path whose parent is not a map in the
  document, two actions on overlapping paths, and an undefined expression value are
  rejected as \<open>ValidationException\<close>; a false condition is
  \<open>ConditionalCheckFailedException\<close>; a rejected update leaves the document as it was.
\<close>

datatype action = Set path val | Remove path

datatype condition = AttributeNotExists path | PathEquals path "val option"

record update_request =
  actions :: "action list"
  condition :: "condition option"

fun set_path :: "path \<Rightarrow> val \<Rightarrow> val \<Rightarrow> val option" where
  "set_path [] x v = None"
| "set_path [k] x (VMap m) = Some (VMap (AList.update k x m))"
| "set_path (k # k' # ks) x (VMap m) =
     (case map_of m k of
        None \<Rightarrow> None
      | Some c \<Rightarrow> map_option (\<lambda>c'. VMap (AList.update k c' m)) (set_path (k' # ks) x c))"
| "set_path (k # ks) x _ = None"

fun remove_path :: "path \<Rightarrow> val \<Rightarrow> val option" where
  "remove_path [] v = None"
| "remove_path [k] (VMap m) = Some (VMap (AList.delete k m))"
| "remove_path (k # k' # ks) (VMap m) =
     (case map_of m k of
        None \<Rightarrow> None
      | Some c \<Rightarrow> map_option (\<lambda>c'. VMap (AList.update k c' m)) (remove_path (k' # ks) c))"
| "remove_path (k # ks) _ = None"

fun action_path :: "action \<Rightarrow> path" where
  "action_path (Set p x) = p"
| "action_path (Remove p) = p"

fun apply_action :: "action \<Rightarrow> val \<Rightarrow> val option" where
  "apply_action (Set p x) d = set_path p x d"
| "apply_action (Remove p) d = remove_path p d"

fun apply_actions :: "action list \<Rightarrow> val \<Rightarrow> val option" where
  "apply_actions [] d = Some d"
| "apply_actions (a # as) d =
     (case apply_action a d of None \<Rightarrow> None | Some d' \<Rightarrow> apply_actions as d')"

definition overlap :: "path \<Rightarrow> path \<Rightarrow> bool" where
  "overlap p q = (prefix p q \<or> prefix q p)"

fun no_overlaps :: "path list \<Rightarrow> bool" where
  "no_overlaps [] = True"
| "no_overlaps (p # ps) = ((\<forall>q \<in> set ps. \<not> overlap p q) \<and> no_overlaps ps)"

fun holds :: "condition \<Rightarrow> val \<Rightarrow> bool" where
  "holds (AttributeNotExists p) d = (get_path p d = None)"
| "holds (PathEquals p x) d = (x \<noteq> None \<and> get_path p d = x)"

fun well_formed :: "condition option \<Rightarrow> bool" where
  "well_formed (Some (PathEquals p None)) = False"
| "well_formed _ = True"

definition update_item :: "update_request \<Rightarrow> val \<Rightarrow> error + val" where
  "update_item req d =
     (if \<not> no_overlaps (map action_path (actions req)) \<or> \<not> well_formed (condition req)
      then Inl (ServiceError ''ValidationException'')
      else if (case condition req of None \<Rightarrow> False | Some c \<Rightarrow> \<not> holds c d)
      then Inl (ServiceError ''ConditionalCheckFailedException'')
      else case apply_actions (actions req) d of
             None \<Rightarrow> Inl (ServiceError ''ValidationException'')
           | Some d' \<Rightarrow> Inr d')"

text \<open>
  The client is a parameter of every State Store operation, so that a client failing with
  any error can be supplied; \<open>dynamo\<close> is the client that never fails on its own. A read
  returns the item, or nothing when there is no item.
\<close>

record kv_client =
  client_get :: "val \<Rightarrow> error + val option"
  client_update :: "update_request \<Rightarrow> val \<Rightarrow> error + val"

definition dynamo :: kv_client where
  "dynamo = \<lparr> client_get = (\<lambda>d. Inr (Some d)), client_update = update_item \<rparr>"

text \<open>The state threaded through the operations: the document and the update requests sent.\<close>

record store =
  document :: val
  sent :: "update_request list"

definition send_update :: "kv_client \<Rightarrow> update_request \<Rightarrow> store \<Rightarrow> (error + unit) \<times> store" where
  "send_update client req s =
     (case client_update client req (document s) of
        Inl err \<Rightarrow> (Inl err, s\<lparr>sent := sent s @ [req]\<rparr>)
      | Inr d \<Rightarrow> (Inr (), \<lparr> document = d, sent = sent s @ [req] \<rparr>))"

section \<open>The State Store (state-store.js)\<close>

text \<open>
  The private properties of a State Store instance that the operations read. The
  expression path \<open>shardsPath\<close> and its attribute names \<open>shardsPathNames\<close> are kept
  together as the resolved path.
\<close>

record store_props =
  consumerId :: string
  isStandalone :: bool
  appName :: string
  host :: string
  pid :: int

definition shardsPath :: "store_props \<Rightarrow> path" where
  "shardsPath props =
     (if isStandalone props then [''consumers'', consumerId props, ''shards''] else [''shards''])"

definition getStreamState :: "kv_client \<Rightarrow> store \<Rightarrow> error + val option" where
  "getStreamState client s = client_get client (document s)"

text \<open>
  Reading property \<open>k\<close> of a JavaScript value: a \<open>TypeError\<close> on \<open>undefined\<close> and
  \<open>null\<close>, the entry of a map, \<open>undefined\<close> on any other value.
\<close>

fun readProp :: "val option \<Rightarrow> string \<Rightarrow> error + val option" where
  "readProp None k = Inl TypeError"
| "readProp (Some VNull) k = Inl TypeError"
| "readProp (Some (VMap m)) k = Inr (map_of m k)"
| "readProp (Some _) k = Inr None"

fun val_truthy :: "val option \<Rightarrow> bool" where
  "val_truthy None = False"
| "val_truthy (Some VNull) = False"
| "val_truthy (Some (VBool b)) = b"
| "val_truthy (Some (VNum n)) = (n \<noteq> 0)"
| "val_truthy (Some (VStr s)) = (s \<noteq> [])"
| "val_truthy (Some (VTime t)) = True"
| "val_truthy (Some (VMap m)) = True"

text \<open>
  The values of \<open>Date.now()\<close> and of \<open>generate()\<close> (a fresh short UUID) are arguments of
  the operations that call them. The clock and the start of the process
  (\<open>Date.now() - uptime() * 1000\<close>) are valid time values, whose ISO strings
  \<open>registerConsumer\<close> stores as \<open>VTime\<close>; the lease expiration is computed from an
  argument and goes through \<open>toISOString\<close>.
\<close>

definition ensureShardStateExists_request ::
  "store_props \<Rightarrow> string \<Rightarrow> shard_data \<Rightarrow> string \<Rightarrow> update_request" where
  "ensureShardStateExists_request props shardId shardData uuid =
     \<lparr> actions =
         [Set (shardsPath props @ [shardId])
            (VMap [(''parent'', optStr (parent shardData)),
                   (''checkpoint'', VNull),
                   (''depleted'', VBool False),
                   (''leaseExpiration'', VNull),
                   (''leaseOwner'', VNull),
                   (''version'', VStr uuid)])],
       condition = Some (AttributeNotExists (shardsPath props @ [shardId])) \<rparr>"

definition ensureShardStateExists ::
  "store_props \<Rightarrow> kv_client \<Rightarrow> string \<Rightarrow> shard_data \<Rightarrow> string \<Rightarrow> store \<Rightarrow>
     (error + unit) \<times> store" where
  "ensureShardStateExists props client shardId shardData uuid s =
     (case send_update client (ensureShardStateExists_request props shardId shardData uuid) s of
        (Inr u, s') \<Rightarrow> (Inr (), s')
      | (Inl err, s') \<Rightarrow>
          if code err \<noteq> Some ''ConditionalCheckFailedException'' then (Inl err, s')
          else (Inr (), s'))"

text \<open>
  The request of \<open>lockShardLease\<close>; \<open>leaseExpiration\<close> is the value of
  \<open>new Date(Date.now() + leaseTermTimeout).toISOString()\<close>.
\<close>

definition lockShardLease_request ::
  "store_props \<Rightarrow> string \<Rightarrow> val \<Rightarrow> string \<Rightarrow> string \<Rightarrow> update_request" where
  "lockShardLease_request props shardId leaseExpiration version uuid =
     \<lparr> actions =
         [Set (shardsPath props @ [shardId, ''leaseOwner'']) (VStr (consumerId props)),
          Set (shardsPath props @ [shardId, ''leaseExpiration'']) leaseExpiration,
          Set (shardsPath props @ [shardId, ''version'']) (VStr uuid)],
       condition =
         Some (PathEquals (shardsPath props @ [shardId, ''version'']) (Some (VStr version))) \<rparr>"

text \<open>
  The expression values are computed inside the \<open>try\<close> block, before the update is sent:
  a \<open>RangeError\<close> of \<open>toISOString\<close> reaches the \<open>catch\<close>, which rethrows it.
\<close>

definition lockShardLease ::
  "store_props \<Rightarrow> kv_client \<Rightarrow> string \<Rightarrow> int \<Rightarrow> string \<Rightarrow> int \<Rightarrow> string \<Rightarrow> store \<Rightarrow>
     (error + bool) \<times> store" where
  "lockShardLease props client shardId leaseTermTimeout version now uuid s =
     (case (case toISOString (now + leaseTermTimeout) of
              Inl err \<Rightarrow> (Inl err, s)
            | Inr leaseExpiration \<Rightarrow>
                send_update client
                  (lockShardLease_request props shardId leaseExpiration version uuid) s) of
        (Inr u, s') \<Rightarrow> (Inr True, s')
      | (Inl err, s') \<Rightarrow>
          if code err \<noteq> Some ''ConditionalCheckFailedException'' then (Inl err, s')
          else (Inr False, s'))"

definition releaseShardLease_request ::
  "store_props \<Rightarrow> string \<Rightarrow> string \<Rightarrow> string \<Rightarrow> update_request" where
  "releaseShardLease_request props shardId version releasedVersion =
     \<lparr> actions =
         [Set (shardsPath props @ [shardId, ''leaseOwner'']) VNull,
          Set (shardsPath props @ [shardId, ''leaseExpiration'']) VNull,
          Set (shardsPath props @ [shardId, ''version'']) (VStr releasedVersion)],
       condition =
         Some (PathEquals (shardsPath props @ [shardId, ''version'']) (Some (VStr version))) \<rparr>"

definition releaseShardLease ::
  "store_props \<Rightarrow> kv_client \<Rightarrow> string \<Rightarrow> string \<Rightarrow> string \<Rightarrow> store \<Rightarrow>
     (error + string option) \<times> store" where
  "releaseShardLease props client shardId version releasedVersion s =
     (case send_update client (releaseShardLease_request props shardId version releasedVersion) s
      of
        (Inr u, s') \<Rightarrow> (Inr (Some releasedVersion), s')
      | (Inl err, s') \<Rightarrow>
          if code err \<noteq> Some ''ConditionalCheckFailedException'' then (Inl err, s')
          else (Inr None, s'))"

definition storeShardCheckpoint_request ::
  "store_props \<Rightarrow> string \<Rightarrow> string \<Rightarrow> string \<Rightarrow> update_request" where
  "storeShardCheckpoint_request props shardId checkpoint uuid =
     \<lparr> actions =
         [Set (shardsPath props @ [shardId, ''checkpoint'']) (VStr checkpoint),
          Set (shardsPath props @ [shardId, ''version'']) (VStr uuid)],
       condition = None \<rparr>"

definition storeShardCheckpoint ::
  "store_props \<Rightarrow> kv_client \<Rightarrow> string \<Rightarrow> string \<Rightarrow> string \<Rightarrow> store \<Rightarrow>
     (error + unit) \<times> store" where
  "storeShardCheckpoint props client shardId checkpoint uuid s =
     send_update client (storeShardCheckpoint_request props shardId checkpoint uuid) s"

section \<open>The State Store: consumers and depletion\<close>

text \<open>
  \<open>new Date(heartbeat).getTime()\<close>; \<open>None\<close> is \<open>NaN\<close>, with which every comparison is
  false. A number, a boolean and \<open>null\<close> are taken as a time value; a string is parsed, and
  an object is parsed as the string it converts to. The ISO string of an instant parses
  back to that instant; how the engine parses any other string is the parameter
  \<open>dateParse\<close> (\<open>Date.parse\<close>, \<open>None\<close> when the string is not a date). Every time value is
  clipped to the valid range.
\<close>

fun heartbeatTime :: "(string \<Rightarrow> int option) \<Rightarrow> val option \<Rightarrow> int option" where
  "heartbeatTime dateParse None = None"
| "heartbeatTime dateParse (Some (VTime t)) = timeClip t"
| "heartbeatTime dateParse (Some (VNum n)) = timeClip n"
| "heartbeatTime dateParse (Some VNull) = Some 0"
| "heartbeatTime dateParse (Some (VBool b)) = Some (if b then 1 else 0)"
| "heartbeatTime dateParse (Some (VStr str)) =
     (case dateParse str of None \<Rightarrow> None | Some t \<Rightarrow> timeClip t)"
| "heartbeatTime dateParse (Some (VMap m)) =
     (case dateParse ''[object Object]'' of None \<Rightarrow> None | Some t \<Rightarrow> timeClip t)"

text \<open>The callback of the \<open>filter\<close> in \<open>clearOldConsumers\<close>, applied to \<open>consumers[id]\<close>.\<close>

definition isOld :: "(string \<Rightarrow> int option) \<Rightarrow> int \<Rightarrow> int \<Rightarrow> val \<Rightarrow> error + bool" where
  "isOld dateParse now heartbeatFailureTimeout consumer =
     (case readProp (Some consumer) ''heartbeat'' of
        Inl err \<Rightarrow> Inl err
      | Inr heartbeat \<Rightarrow>
          Inr (case heartbeatTime dateParse heartbeat of
                 None \<Rightarrow> False
               | Some t \<Rightarrow> now - t > heartbeatFailureTimeout))"

fun oldConsumers ::
  "(string \<Rightarrow> int option) \<Rightarrow> int \<Rightarrow> int \<Rightarrow> (string \<times> val) list \<Rightarrow> error + string list" where
  "oldConsumers dateParse now timeout [] = Inr []"
| "oldConsumers dateParse now timeout ((cid, consumer) # rest) =
     (case isOld dateParse now timeout consumer of
        Inl err \<Rightarrow> Inl err
      | Inr old \<Rightarrow>
          (case oldConsumers dateParse now timeout rest of
             Inl err \<Rightarrow> Inl err
           | Inr ids \<Rightarrow> Inr (if old then cid # ids else ids)))"

text \<open>
  The entries that \<open>Object.keys\<close> enumerates: a \<open>TypeError\<close> on \<open>undefined\<close> and \<open>null\<close>.
  The keys of a string are its indices and a number or boolean has none; no property read
  through them has a heartbeat, so they are given no entries.
\<close>

fun objectEntries :: "val option \<Rightarrow> error + (string \<times> val) list" where
  "objectEntries None = Inl TypeError"
| "objectEntries (Some VNull) = Inl TypeError"
| "objectEntries (Some (VMap m)) = Inr m"
| "objectEntries (Some _) = Inr []"

definition clearOldConsumers_request ::
  "string list \<Rightarrow> val option \<Rightarrow> string \<Rightarrow> update_request" where
  "clearOldConsumers_request old version uuid =
     \<lparr> actions = map (\<lambda>cid. Remove [''consumers'', cid]) old @ [Set [''version''] (VStr uuid)],
       condition = Some (PathEquals [''version''] version) \<rparr>"

definition clearOldConsumers ::
  "store_props \<Rightarrow> kv_client \<Rightarrow> (string \<Rightarrow> int option) \<Rightarrow> int \<Rightarrow> int \<Rightarrow> string \<Rightarrow> store \<Rightarrow>
     (error + unit) \<times> store" where
  "clearOldConsumers props client dateParse heartbeatFailureTimeout now uuid s =
     (case getStreamState client s of
        Inl err \<Rightarrow> (Inl err, s)
      | Inr item \<Rightarrow>
     (case readProp item ''consumers'' of
        Inl err \<Rightarrow> (Inl err, s)
      | Inr consumers \<Rightarrow>
     (case readProp item ''version'' of
        Inl err \<Rightarrow> (Inl err, s)
      | Inr version \<Rightarrow>
     (case objectEntries consumers of
        Inl err \<Rightarrow> (Inl err, s)
      | Inr entries \<Rightarrow>
     (case oldConsumers dateParse now heartbeatFailureTimeout entries of
        Inl err \<Rightarrow> (Inl err, s)
      | Inr old \<Rightarrow>
          if old = [] then (Inr (), s)
          else (case send_update client (clearOldConsumers_request old version uuid) s of
                  (Inr u, s') \<Rightarrow> (Inr (), s')
                | (Inl err, s') \<Rightarrow>
                    if code err \<noteq> Some ''ConditionalCheckFailedException''
                    then (Inl err, s') else (Inr (), s')))))))"

definition registerConsumer_request :: "store_props \<Rightarrow> int \<Rightarrow> int \<Rightarrow> update_request" where
  "registerConsumer_request props heartbeat startedOn =
     \<lparr> actions =
         [Set [''consumers'', consumerId props]
            (VMap ([(''appName'', VStr (appName props)),
                    (''heartbeat'', VTime heartbeat),
                    (''host'', VStr (host props)),
                    (''isStandalone'', VBool (isStandalone props)),
                    (''pid'', VNum (pid props)),
                    (''startedOn'', VTime startedOn)] @
                   (if isStandalone props then [(''shards'', VMap [])] else [])))],
       condition = Some (AttributeNotExists [''consumers'', consumerId props]) \<rparr>"

definition heartbeat_request :: "store_props \<Rightarrow> int \<Rightarrow> update_request" where
  "heartbeat_request props heartbeat =
     \<lparr> actions = [Set [''consumers'', consumerId props, ''heartbeat''] (VTime heartbeat)],
       condition = None \<rparr>"

definition registerConsumer ::
  "store_props \<Rightarrow> kv_client \<Rightarrow> int \<Rightarrow> int \<Rightarrow> store \<Rightarrow> (error + unit) \<times> store" where
  "registerConsumer props client now startedOn s =
     (case send_update client (registerConsumer_request props now startedOn) s of
        (Inr u, s') \<Rightarrow> (Inr (), s')
      | (Inl err, s') \<Rightarrow>
          if code err = Some ''ConditionalCheckFailedException''
          then (case send_update client (heartbeat_request props now) s' of
                  (r, s'') \<Rightarrow> (Inr (), s''))
          else (Inl err, s'))"

text \<open>
  \<open>childrenShards\<close>: the keys of \<open>shardsData\<close> whose entry has the given parent, each with
  its starting sequence number.
\<close>

definition childrenOf :: "shards_data \<Rightarrow> string \<Rightarrow> (string \<times> string) list" where
  "childrenOf shardsData parentShardId =
     map (\<lambda>(shardId, sd). (shardId, startingSequenceNumber sd))
       (filter (\<lambda>(shardId, sd). parent sd = Some parentShardId) shardsData)"

text \<open>
  The calls of \<open>ensureShardStateExists\<close> that \<open>Promise.all\<close> awaits. Every call is started,
  so every request is sent; they are applied in the order of the array, and the first
  rejection in that order is the rejection of the whole. The \<open>i\<close>-th value generated during
  one call of \<open>markShardAsDepleted\<close> is \<open>uuids i\<close>.
\<close>

fun ensureAll ::
  "store_props \<Rightarrow> kv_client \<Rightarrow> shards_data \<Rightarrow> (string \<times> string) list \<Rightarrow> nat \<Rightarrow>
     (nat \<Rightarrow> string) \<Rightarrow> store \<Rightarrow> (error + unit) \<times> store" where
  "ensureAll props client shardsData [] i uuids s = (Inr (), s)"
| "ensureAll props client shardsData ((shardId, start) # rest) i uuids s =
     (case (case map_of shardsData shardId of
              None \<Rightarrow> (Inl TypeError, s)
            | Some shardData \<Rightarrow>
                ensureShardStateExists props client shardId shardData (uuids i) s) of
        (r, s') \<Rightarrow>
          (case ensureAll props client shardsData rest (Suc i) uuids s' of
             (r', s'') \<Rightarrow> (case r of Inl err \<Rightarrow> (Inl err, s'') | Inr u \<Rightarrow> (r', s''))))"

definition markShardAsDepleted_request ::
  "store_props \<Rightarrow> string \<Rightarrow> (string \<times> string) list \<Rightarrow> (nat \<Rightarrow> string) \<Rightarrow> update_request" where
  "markShardAsDepleted_request props parentShardId childrenShards uuids =
     \<lparr> actions =
         [Set (shardsPath props @ [parentShardId, ''depleted'']) (VBool True),
          Set (shardsPath props @ [parentShardId, ''version''])
            (VStr (uuids (length childrenShards)))] @
         concat (map (\<lambda>(index, (shardId, start)).
                        [Set (shardsPath props @ [shardId, ''checkpoint'']) (VStr start),
                         Set (shardsPath props @ [shardId, ''version''])
                           (VStr (uuids (length childrenShards + 1 + index)))])
                   (enumerate 0 childrenShards)),
       condition = None \<rparr>"

definition markShardAsDepleted ::
  "store_props \<Rightarrow> kv_client \<Rightarrow> shards_data \<Rightarrow> string \<Rightarrow> (nat \<Rightarrow> string) \<Rightarrow> store \<Rightarrow>
     (error + unit) \<times> store" where
  "markShardAsDepleted props client shardsData parentShardId uuids s =
     (case getStreamState client s of
        Inl err \<Rightarrow> (Inl err, s)
      | Inr item \<Rightarrow>
     (case readProp item ''shards'' of
        Inl err \<Rightarrow> (Inl err, s)
      | Inr shards \<Rightarrow>
     (case readProp shards parentShardId of
        Inl err \<Rightarrow> (Inl err, s)
      | Inr parentShard \<Rightarrow>
     (case readProp parentShard ''checkpoint'' of
        Inl err \<Rightarrow> (Inl err, s)
      | Inr checkpoint \<Rightarrow>
          (let childrenShards =
                 (if val_truthy checkpoint then childrenOf shardsData parentShardId else [])
           in case ensureAll props client shardsData childrenShards 0 uuids s of
                (Inl err, s') \<Rightarrow> (Inl err, s')
              | (Inr u, s') \<Rightarrow>
                  send_update client
                    (markShardAsDepleted_request props parentShardId childrenShards uuids)
                    s')))))"

text \<open>The operations of the State Store that write, as one datatype, and their execution.\<close>

datatype store_op =
    EnsureShardStateExists string shard_data string
  | LockShardLease string int string int string
  | ReleaseShardLease string string string
  | StoreShardCheckpoint string string string
  | MarkShardAsDepleted shards_data string "nat \<Rightarrow> string"
  | RegisterConsumer int int
  | ClearOldConsumers "string \<Rightarrow> int option" int int string

fun run_op :: "store_props \<Rightarrow> kv_client \<Rightarrow> store_op \<Rightarrow> store \<Rightarrow> store" where
  "run_op props client (EnsureShardStateExists shardId shardData uuid) s =
     snd (ensureShardStateExists props client shardId shardData uuid s)"
| "run_op props client (LockShardLease shardId leaseTermTimeout version now uuid) s =
     snd (lockShardLease props client shardId leaseTermTimeout version now uuid s)"
| "run_op props client (ReleaseShardLease shardId version releasedVersion) s =
     snd (releaseShardLease props client shardId version releasedVersion s)"
| "run_op props client (StoreShardCheckpoint shardId checkpoint uuid) s =
     snd (storeShardCheckpoint props client shardId checkpoint uuid s)"
| "run_op props client (MarkShardAsDepleted shardsData parentShardId uuids) s =
     snd (markShardAsDepleted props client shardsData parentShardId uuids s)"
| "run_op props client (RegisterConsumer now startedOn) s =
     snd (registerConsumer props client now startedOn s)"
| "run_op props client (ClearOldConsumers dateParse heartbeatFailureTimeout now uuid) s =
     snd (clearOldConsumers props client dateParse heartbeatFailureTimeout now uuid s)"

text \<open>A run of operations, each issued by the instance with the given properties.\<close>

fun run_ops :: "kv_client \<Rightarrow> (store_props \<times> store_op) list \<Rightarrow> store \<Rightarrow> store" where
  "run_ops client [] s = s"
| "run_ops client ((props, op) # rest) s = run_ops client rest (run_op props client op s)"

text \<open>
  A run keeps the record of consumer \<open>cid\<close> when no step of it removes that record: the
  record is never present before a step and absent after it.
\<close>

fun keepsConsumer ::
  "string \<Rightarrow> kv_client \<Rightarrow> (store_props \<times> store_op) list \<Rightarrow> store \<Rightarrow> bool" where
  "keepsConsumer cid client [] s = True"
| "keepsConsumer cid client ((props, op) # rest) s =
     ((get_path [''consumers'', cid] (document s) \<noteq> None \<longrightarrow>
       get_path [''consumers'', cid] (document (run_op props client op s)) \<noteq> None) \<and>
      keepsConsumer cid client rest (run_op props client op s))"

fun isClearOldConsumers :: "store_op \<Rightarrow> bool" where
  "isClearOldConsumers (ClearOldConsumers dateParse t n u) = True"
| "isClearOldConsumers _ = False"

text \<open>An operation avoids \<open>v\<close> when no version it generates is \<open>v\<close>.\<close>

fun avoids :: "string \<Rightarrow> store_op \<Rightarrow> bool" where
  "avoids v (EnsureShardStateExists shardId shardData uuid) = (uuid \<noteq> v)"
| "avoids v (LockShardLease shardId leaseTermTimeout version now uuid) = (uuid \<noteq> v)"
| "avoids v (ReleaseShardLease shardId version releasedVersion) = (releasedVersion \<noteq> v)"
| "avoids v (StoreShardCheckpoint shardId checkpoint uuid) = (uuid \<noteq> v)"
| "avoids v (MarkShardAsDepleted shardsData parentShardId uuids) = (\<forall>i. uuids i \<noteq> v)"
| "avoids v (RegisterConsumer now startedOn) = True"
| "avoids v (ClearOldConsumers dateParse heartbeatFailureTimeout now uuid) = True"

section \<open>Reading a shard slot\<close>

text \<open>
  The record of a shard lives under the shards path of the instance; \<open>slotField\<close> reads
  one attribute of it.
\<close>

definition shardSlot :: "store_props \<Rightarrow> string \<Rightarrow> val \<Rightarrow> val option" where
  "shardSlot props shardId d = get_path (shardsPath props @ [shardId]) d"

definition slotField :: "store_props \<Rightarrow> string \<Rightarrow> string \<Rightarrow> val \<Rightarrow> val option" where
  "slotField props shardId f d = get_path (shardsPath props @ [shardId, f]) d"

section \<open>The polling consumer (polling-consumer.js, pollForRecords)\<close>

text \<open>
  A response field or a private property that holds \<open>undefined\<close>, \<open>null\<close> or a value. Both
  \<open>undefined\<close> and \<open>null\<close> are false in a condition, as is the empty string, but only
  \<open>undefined\<close> passes the test \<open>=== undefined\<close>.
\<close>

datatype 'a nullable = Undefined | Null | Defined 'a

fun truthyField :: "string nullable \<Rightarrow> bool" where
  "truthyField (Defined str) = (str \<noteq> [])"
| "truthyField _ = False"

fun fieldOrEmpty :: "string nullable \<Rightarrow> string" where
  "fieldOrEmpty (Defined str) = str"
| "fieldOrEmpty _ = []"

text \<open>
  The comparison \<open>msBehind <= 0\<close>: \<open>null\<close> converts to 0 and \<open>undefined\<close> to \<open>NaN\<close>, with
  which every comparison is false.
\<close>

fun lessEqualZero :: "int nullable \<Rightarrow> bool" where
  "lessEqualZero (Defined ms) = (ms \<le> 0)"
| "lessEqualZero Null = True"
| "lessEqualZero Undefined = False"

text \<open>
  The options of a polling consumer that \<open>pollForRecords\<close> reads and never changes.
\<close>

record consumer_props =
  shardId :: string
  streamName :: string
  initialPositionInStream :: string
  limit :: int
  noRecordsPollDelay :: int
  pollDelay :: int
  useAutoCheckpoints :: bool
  usePausedPolling :: bool
  shouldDeaggregate :: bool

text \<open>
  The private properties that change: the last stored checkpoint, the iterator for the next
  fetch, the sequence number stashed for the next poll, the lease expiration and the delay
  of the pending timer, if any.
\<close>

record consumer_state =
  checkpoint :: "string option"
  iterator :: "string nullable"
  seqNumToCheckpoint :: "string option"
  leaseExpiration :: int
  timeoutId :: "int option"

record kinesis_record =
  SequenceNumber :: string
  Data :: string

record user_record =
  sequenceNumber :: string
  userData :: string

record get_records_output =
  MillisBehindLatest :: "int nullable"
  NextShardIterator :: "string nullable"
  Records :: "kinesis_record list"

record push_props =
  millisBehindLatest :: "int nullable"
  records :: "user_record list"
  pushedShardId :: string
  pushedStreamName :: string
  withSetCheckpoint :: bool
  withContinuePolling :: bool

text \<open>
  What the collaborators answer during one activation of \<open>pollForRecords\<close>: the clock, the
  state store (\<open>None\<close> when the call resolves), the Kinesis client, and the modules
  \<open>deaggregate\<close> and \<open>records\<close>, which are not part of the sources and are parameters here.
\<close>

record poll_io =
  dateNow :: int
  storeResult :: "string \<Rightarrow> error option"
  iteratorResult :: "iterator_params \<Rightarrow> error + string option"
  getRecordsResult :: "string \<Rightarrow> error + get_records_output"
  listShardsResult :: "error + shard_listing list"
  depletedResult :: "shards_data \<Rightarrow> error option"
  deaggregate :: "kinesis_record list \<Rightarrow> error + kinesis_record list"
  recordsDecoder :: "kinesis_record \<Rightarrow> error + user_record"

text \<open>The calls that leave the consumer, in the order they are made.\<close>

datatype event =
    CallStopConsumer string
  | CallStoreShardCheckpoint string string
  | CallGetShardIterator iterator_params
  | CallGetRecords int string
  | CallListShards
  | CallMarkShardAsDepleted shards_data string
  | CallSetTimeout int
  | CallPushToStream "error + push_props"

type_synonym 'a outcome = "(error + 'a) \<times> consumer_state \<times> event list"

text \<open>The closure \<open>setCheckpoint\<close> installed by \<open>start\<close>.\<close>

definition setCheckpoint ::
  "consumer_props \<Rightarrow> poll_io \<Rightarrow> string \<Rightarrow> consumer_state \<Rightarrow> unit outcome" where
  "setCheckpoint props io seqNum st =
     (case storeResult io seqNum of
        Some err \<Rightarrow> (Inl err, st, [CallStoreShardCheckpoint (shardId props) seqNum])
      | None \<Rightarrow>
          (Inr (), st\<lparr>checkpoint := Some seqNum\<rparr>,
           [CallStoreShardCheckpoint (shardId props) seqNum]))"

text \<open>The block \<open>if (seqNumToCheckpoint) { ... }\<close>.\<close>

definition storeStashed :: "consumer_props \<Rightarrow> poll_io \<Rightarrow> consumer_state \<Rightarrow> unit outcome" where
  "storeStashed props io st =
     (case seqNumToCheckpoint st of
        None \<Rightarrow> (Inr (), st, [])
      | Some seq \<Rightarrow>
          if seq = [] then (Inr (), st, [])
          else (case setCheckpoint props io seq st of
                  (Inl err, st', evs) \<Rightarrow> (Inl err, st', evs)
                | (Inr u, st', evs) \<Rightarrow> (Inr (), st'\<lparr>seqNumToCheckpoint := None\<rparr>, evs)))"

text \<open>
  The two blocks that obtain an iterator when none is kept. \<open>checkpoint0\<close> is the constant
  \<open>checkpoint\<close> that \<open>pollForRecords\<close> destructures on entry.
\<close>

definition acquireIterator ::
  "consumer_props \<Rightarrow> poll_io \<Rightarrow> string option \<Rightarrow> string nullable \<Rightarrow>
     (error + string) \<times> event list" where
  "acquireIterator props io checkpoint0 iterator0 =
     (case (if \<not> truthyField iterator0 \<and> truthy checkpoint0
            then (case getShardIterator (iteratorResult io) (streamName props) (shardId props)
                         (initialPositionInStream props) checkpoint0 of
                    (Inl err, reqs) \<Rightarrow> (Inl err, map CallGetShardIterator reqs)
                  | (Inr it, reqs) \<Rightarrow> (Inr (Defined it), map CallGetShardIterator reqs))
            else (Inr iterator0, [])) of
        (Inl err, evs) \<Rightarrow> (Inl err, evs)
      | (Inr iterator1, evs) \<Rightarrow>
          if \<not> truthyField iterator1
          then (case getShardIterator (iteratorResult io) (streamName props) (shardId props)
                       (initialPositionInStream props) None of
                  (Inl err, reqs) \<Rightarrow> (Inl err, evs @ map CallGetShardIterator reqs)
                | (Inr it, reqs) \<Rightarrow> (Inr it, evs @ map CallGetShardIterator reqs))
          else (Inr (fieldOrEmpty iterator1), evs))"

text \<open>
  From the stashed checkpoint to the answer of \<open>getRecords\<close>, with
  \<open>privateProps.iterator = NextShardIterator\<close>.
\<close>

definition fetchRecords ::
  "consumer_props \<Rightarrow> poll_io \<Rightarrow> consumer_state \<Rightarrow> get_records_output outcome" where
  "fetchRecords props io st =
     (case storeStashed props io st of
        (Inl err, st1, evs1) \<Rightarrow> (Inl err, st1, evs1)
      | (Inr u, st1, evs1) \<Rightarrow>
          (case acquireIterator props io (checkpoint st) (iterator st1) of
             (Inl err, evs2) \<Rightarrow> (Inl err, st1, evs1 @ evs2)
           | (Inr it, evs2) \<Rightarrow>
               (case getRecordsResult io it of
                  Inl err \<Rightarrow> (Inl err, st1, evs1 @ evs2 @ [CallGetRecords (limit props) it])
                | Inr data \<Rightarrow>
                    (Inr data, st1\<lparr>iterator := NextShardIterator data\<rparr>,
                     evs1 @ evs2 @ [CallGetRecords (limit props) it]))))"

text \<open>
  The branch \<open>recordsCount === 0\<close>, with its test \<open>NextShardIterator === undefined\<close>.
\<close>

definition noRecords ::
  "consumer_props \<Rightarrow> poll_io \<Rightarrow> get_records_output \<Rightarrow> consumer_state \<Rightarrow> unit outcome" where
  "noRecords props io data st =
     (if NextShardIterator data = Undefined
      then (case listShardsResult io of
              Inl err \<Rightarrow> (Inl err, st, [CallListShards])
            | Inr Shards \<Rightarrow>
                (let shards = getStreamShards Shards
                 in case depletedResult io shards of
                      Some err \<Rightarrow>
                        (Inl err, st,
                         [CallListShards, CallMarkShardAsDepleted shards (shardId props)])
                    | None \<Rightarrow>
                        (Inr (), st,
                         [CallListShards, CallMarkShardAsDepleted shards (shardId props),
                          CallStopConsumer (shardId props)])))
      else (let delay = (if lessEqualZero (MillisBehindLatest data)
                         then noRecordsPollDelay props else 0)
            in (Inr (), st\<lparr>timeoutId := Some delay\<rparr>, [CallSetTimeout delay])))"

text \<open>\<open>Promise.all(deaggCollection.map(recordsDecoder))\<close>: the first rejection wins.\<close>

fun decodeAll :: "(kinesis_record \<Rightarrow> error + user_record) \<Rightarrow> kinesis_record list \<Rightarrow>
    error + user_record list" where
  "decodeAll decoder [] = Inr []"
| "decodeAll decoder (r # rs) =
     (case decoder r of
        Inl err \<Rightarrow> Inl err
      | Inr u \<Rightarrow> (case decodeAll decoder rs of Inl err \<Rightarrow> Inl err | Inr us \<Rightarrow> Inr (u # us)))"

text \<open>\<open>records[i]\<close>, undefined out of range.\<close>

definition element :: "'a list \<Rightarrow> nat \<Rightarrow> 'a option" where
  "element xs i = (if i < length xs then Some (xs ! i) else None)"

text \<open>The branch with records: decoding, the checkpoint policy, the push and the timer.\<close>

definition deliver ::
  "consumer_props \<Rightarrow> poll_io \<Rightarrow> get_records_output \<Rightarrow> consumer_state \<Rightarrow> unit outcome" where
  "deliver props io data st =
     (let recordsCount = length (Records data)
      in case (if shouldDeaggregate props then deaggregate io (Records data)
               else Inr (Records data)) of
           Inl err \<Rightarrow> (Inl err, st, [])
         | Inr deaggCollection \<Rightarrow>
      (case decodeAll (recordsDecoder io) deaggCollection of
           Inl err \<Rightarrow> (Inl err, st, [])
         | Inr recs \<Rightarrow>
      (case (if useAutoCheckpoints props
             then (case element recs (recordsCount - 1) of
                     None \<Rightarrow> (Inl TypeError, st, [])
                   | Some r \<Rightarrow>
                       if \<not> usePausedPolling props
                       then setCheckpoint props io (sequenceNumber r) st
                       else (Inr (), st\<lparr>seqNumToCheckpoint := Some (sequenceNumber r)\<rparr>, []))
             else (Inr (), st, [])) of
           (Inl err, st1, evs1) \<Rightarrow> (Inl err, st1, evs1)
         | (Inr u, st1, evs1) \<Rightarrow>
             (let propsToPush =
                    \<lparr> millisBehindLatest = MillisBehindLatest data,
                      records = recs,
                      pushedShardId = shardId props,
                      pushedStreamName = streamName props,
                      withSetCheckpoint = (\<not> useAutoCheckpoints props),
                      withContinuePolling = usePausedPolling props \<rparr>
              in if \<not> usePausedPolling props
                 then (Inr (), st1\<lparr>timeoutId := Some (pollDelay props)\<rparr>,
                       evs1 @ [CallPushToStream (Inr propsToPush),
                               CallSetTimeout (pollDelay props)])
                 else (Inr (), st1, evs1 @ [CallPushToStream (Inr propsToPush)])))))"

text \<open>The body of the \<open>try\<close> block.\<close>

definition pollBody :: "consumer_props \<Rightarrow> poll_io \<Rightarrow> consumer_state \<Rightarrow> unit outcome" where
  "pollBody props io st =
     (if dateNow io > leaseExpiration st
      then (Inr (), st, [CallStopConsumer (shardId props)])
      else (case fetchRecords props io st of
              (Inl err, st1, evs1) \<Rightarrow> (Inl err, st1, evs1)
            | (Inr data, st1, evs1) \<Rightarrow>
                (case (if length (Records data) = 0 then noRecords props io data st1
                       else deliver props io data st1) of
                   (r, st2, evs2) \<Rightarrow> (r, st2, evs1 @ evs2))))"

text \<open>
  \<open>pollForRecords\<close> with its \<open>catch\<close>: on \<open>ExpiredIteratorException\<close> the iterator is
  dropped and the function calls itself. Each activation, the recursive ones included,
  reads the answers of its collaborators from the head of the list; the result is \<open>None\<close>
  when the list is used up before an activation ends otherwise.
\<close>

fun pollForRecords ::
  "consumer_props \<Rightarrow> poll_io list \<Rightarrow> consumer_state \<Rightarrow> (consumer_state \<times> event list) option"
  where
  "pollForRecords props [] st = None"
| "pollForRecords props (io # ios) st =
     (case pollBody props io st of
        (Inr u, st', evs) \<Rightarrow> Some (st', evs)
      | (Inl err, st', evs) \<Rightarrow>
          if code err = Some ''ExpiredIteratorException''
          then (case pollForRecords props ios (st'\<lparr>iterator := Null\<rparr>) of
                  None \<Rightarrow> None
                | Some (st'', evs') \<Rightarrow> Some (st'', evs @ evs'))
          else Some (st', evs @ [CallPushToStream (Inl err)]))"

text \<open>
  The life of one polling consumer: activations of \<open>pollForRecords\<close> (by \<open>start\<close>, by a
  timer or by \<open>continuePolling\<close>), each with the answers for it and for its recursive
  calls, and calls of \<open>setCheckpoint\<close> by the downstream, which holds that function only
  when \<open>useAutoCheckpoints\<close> is off (it is pushed only then). The result is the trace of
  the calls made; a run ends at an activation that uses up its answers.
\<close>

datatype activation = Poll "poll_io list" | UserSetCheckpoint poll_io string

fun run :: "consumer_props \<Rightarrow> activation list \<Rightarrow> consumer_state \<Rightarrow> event list" where
  "run props [] st = []"
| "run props (Poll ios # rest) st =
     (case pollForRecords props ios st of
        None \<Rightarrow> []
      | Some (st', evs) \<Rightarrow> evs @ run props rest st')"
| "run props (UserSetCheckpoint io seq # rest) st =
     (if useAutoCheckpoints props then run props rest st
      else (case setCheckpoint props io seq st of
              (r, st', evs) \<Rightarrow> evs @ run props rest st'))"

text \<open>The values passed to \<open>storeShardCheckpoint\<close>, in order.\<close>

fun written :: "event list \<Rightarrow> string list" where
  "written [] = []"
| "written (CallStoreShardCheckpoint sid seq # evs) = seq # written evs"
| "written (ev # evs) = written evs"

text \<open>Sequence numbers are decimal numerals; their order is that of the numbers.\<close>

definition seqNum :: "string \<Rightarrow> nat" where
  "seqNum s = foldl (\<lambda>n c. 10 * n + (of_char c - 48)) 0 s"

definition seqLe :: "string \<Rightarrow> string \<Rightarrow> bool" where
  "seqLe a b = (seqNum a \<le> seqNum b)"

section \<open>Auxiliary notions for the proofs\<close>

text \<open>
  The edits of the single update of \<open>markShardAsDepleted\<close>, as (shard id, attribute, value)
  triples in the order of its update expression; \<open>childEdits\<close> are those of the children,
  numbered from \<open>i\<close>, when \<open>n\<close> children are edited in all.
\<close>

definition childEdits ::
  "(nat \<Rightarrow> string) \<Rightarrow> nat \<Rightarrow> nat \<Rightarrow> (string \<times> string) list \<Rightarrow> (string \<times> string \<times> val) list" where
  "childEdits uuids n i childrenShards =
     concat (map (\<lambda>(index, (shardId, start)).
                    [(shardId, ''checkpoint'', VStr start),
                     (shardId, ''version'', VStr (uuids (n + 1 + index)))])
               (enumerate i childrenShards))"

definition depletionEdits ::
  "string \<Rightarrow> (string \<times> string) list \<Rightarrow> (nat \<Rightarrow> string) \<Rightarrow> (string \<times> string \<times> val) list" where
  "depletionEdits parentShardId childrenShards uuids =
     [(parentShardId, ''depleted'', VBool True),
      (parentShardId, ''version'', VStr (uuids (length childrenShards)))] @
     childEdits uuids (length childrenShards) 0 childrenShards"

text \<open>The record that \<open>ensureShardStateExists\<close> writes for a child of \<open>parentShardId\<close>.\<close>

definition freshChild :: "string \<Rightarrow> string \<Rightarrow> (string \<times> val) list" where
  "freshChild parentShardId uuid =
     [(''parent'', VStr parentShardId), (''checkpoint'', VNull), (''depleted'', VBool False),
      (''leaseExpiration'', VNull), (''leaseOwner'', VNull), (''version'', VStr uuid)]"


section \<open>Concrete inputs used by the witnesses\<close>

definition demoClient :: "iterator_params \<Rightarrow> error + string option" where
  "demoClient p =
     (if StartingSequenceNumber p = Some ''49''
      then Inl (ServiceError ''InvalidArgumentException'')
      else if ShardIteratorType p = ''LATEST'' then Inr (Some ''it-1'')
      else Inl (ServiceError ''ResourceNotFoundException''))"

text \<open>A parser that knows one date besides the ISO strings.\<close>

definition demoParse :: "string \<Rightarrow> int option" where
  "demoParse str = (if str = ''Thu, 01 Jan 1970 00:00:10 GMT'' then Some 10000 else None)"

definition demoListing :: "shard_listing list" where
  "demoListing =
     [\<lparr> ListedShardId = ''shardId-1'', ParentShardId = Some ''shardId-0'',
         ListedStartingSequenceNumber = ''100'' \<rparr>,
      \<lparr> ListedShardId = ''shardId-2'', ParentShardId = Some ''shardId-1'',
         ListedStartingSequenceNumber = ''200'' \<rparr>,
      \<lparr> ListedShardId = ''shardId-3'', ParentShardId = None,
         ListedStartingSequenceNumber = ''300'' \<rparr>]"

definition demoConsumers :: "(string \<times> val) list" where
  "demoConsumers =
     [(''A'', VMap [(''heartbeat'', VTime 100000), (''isStandalone'', VBool False)]),
      (''B'', VMap [(''heartbeat'', VTime 10000), (''isStandalone'', VBool False)])]"

definition demoParentRecord :: "(string \<times> val) list" where
  "demoParentRecord =
     [(''parent'', VNull), (''checkpoint'', VStr ''49''), (''depleted'', VBool False),
      (''leaseExpiration'', VNull), (''leaseOwner'', VNull), (''version'', VStr ''v1'')]"

definition demoShardsMap :: "(string \<times> val) list" where
  "demoShardsMap = [(''shardId-0'', VMap demoParentRecord)]"

definition demoItem :: "(string \<times> val) list" where
  "demoItem =
     [(''consumers'', VMap demoConsumers),
      (''shards'', VMap demoShardsMap),
      (''version'', VStr ''d1'')]"

definition demoDocument :: val where
  "demoDocument = VMap demoItem"

definition demoStore :: store where
  "demoStore = \<lparr> document = demoDocument, sent = [] \<rparr>"

definition demoProps :: store_props where
  "demoProps = \<lparr> consumerId = ''A'', isStandalone = False, appName = ''app'', host = ''h'',
                  pid = 1 \<rparr>"

definition failingClient :: "error \<Rightarrow> kv_client" where
  "failingClient e = \<lparr> client_get = (\<lambda>d. Inl e), client_update = (\<lambda>req d. Inl e) \<rparr>"

definition demoUuids :: "nat \<Rightarrow> string" where
  "demoUuids i = ''u'' @ replicate i CHR ''x''"

definition standaloneItem :: "(string \<times> val) list" where
  "standaloneItem =
     [(''consumers'',
        VMap [(''X'', VMap [(''heartbeat'', VTime 10000), (''isStandalone'', VBool True),
                 (''shards'',
                   VMap [(''shardId-0'',
                           VMap [(''parent'', VNull), (''checkpoint'', VStr ''49''),
                                 (''depleted'', VBool False), (''leaseExpiration'', VNull),
                                 (''leaseOwner'', VStr ''X''), (''version'', VStr ''v1'')])])]),
              (''Y'', VMap [(''heartbeat'', VTime 100000), (''isStandalone'', VBool True),
                 (''shards'', VMap [])])]),
      (''shards'',
        VMap [(''shardId-0'',
                VMap [(''parent'', VNull), (''checkpoint'', VStr ''49''),
                      (''depleted'', VBool False), (''leaseExpiration'', VNull),
                      (''leaseOwner'', VNull), (''version'', VStr ''w1'')])]),
      (''version'', VStr ''d1'')]"

definition standaloneStore :: store where
  "standaloneStore = \<lparr> document = VMap standaloneItem, sent = [] \<rparr>"

definition xProps :: store_props where
  "xProps = \<lparr> consumerId = ''X'', isStandalone = True, appName = ''app'', host = ''h'',
               pid = 1 \<rparr>"

definition yProps :: store_props where
  "yProps = \<lparr> consumerId = ''Y'', isStandalone = True, appName = ''app'', host = ''h'',
               pid = 2 \<rparr>"

definition rootShard :: shard_data where
  "rootShard = \<lparr> parent = None, startingSequenceNumber = ''0'' \<rparr>"

definition depletedStore :: store where
  "depletedStore =
     run_ops dynamo [(demoProps, MarkShardAsDepleted [] ''shardId-0'' demoUuids)] demoStore"

definition demoOps :: "(store_props \<times> store_op) list" where
  "demoOps =
     [(demoProps\<lparr>consumerId := ''B''\<rparr>, ClearOldConsumers demoParse 60000 120000 ''d2''),
      (demoProps, RegisterConsumer 130000 0),
      (demoProps, EnsureShardStateExists ''shardId-0'' rootShard ''v2''),
      (demoProps, LockShardLease ''shardId-0'' 300000 ''u'' 130000 ''v3'')]"

definition standaloneDepleted :: store where
  "standaloneDepleted =
     run_ops dynamo [(xProps, MarkShardAsDepleted [] ''shardId-0'' demoUuids)] standaloneStore"

definition sparingOps :: "(store_props \<times> store_op) list" where
  "sparingOps =
     [(xProps, RegisterConsumer 200000 0),
      (yProps, ClearOldConsumers demoParse 60000 200000 ''d2''),
      (xProps, EnsureShardStateExists ''shardId-0'' rootShard ''v2'')]"

definition demoShardsData :: shards_data where
  "demoShardsData =
     [(''shardId-0'', \<lparr> parent = None, startingSequenceNumber = ''0'' \<rparr>),
      (''shardId-1'', \<lparr> parent = Some ''shardId-0'', startingSequenceNumber = ''100'' \<rparr>),
      (''shardId-2'', \<lparr> parent = Some ''shardId-0'', startingSequenceNumber = ''200'' \<rparr>)]"

definition pureStandaloneStore :: store where
  "pureStandaloneStore =
     \<lparr> document =
         VMap [(''consumers'',
                 VMap [(''X'', VMap [(''heartbeat'', VTime 10000), (''isStandalone'', VBool True),
                   (''shards'',
                     VMap [(''shardId-0'',
                             VMap [(''parent'', VNull), (''checkpoint'', VStr ''49''),
                                   (''depleted'', VBool False), (''leaseExpiration'', VNull),
                                   (''leaseOwner'', VStr ''X''), (''version'', VStr ''v1'')])])])]),
               (''shards'', VMap []),
               (''version'', VStr ''d1'')],
       sent = [] \<rparr>"

definition demoConsumerProps :: consumer_props where
  "demoConsumerProps =
     \<lparr> shardId = ''shardId-0'', streamName = ''s'', initialPositionInStream = ''LATEST'',
       limit = 100, noRecordsPollDelay = 1000, pollDelay = 250, useAutoCheckpoints = True,
       usePausedPolling = True, shouldDeaggregate = False \<rparr>"

definition demoState :: consumer_state where
  "demoState =
     \<lparr> checkpoint = Some ''49'', iterator = Defined ''it-0'', seqNumToCheckpoint = None,
       leaseExpiration = 300000, timeoutId = None \<rparr>"

definition demoDecoder :: "kinesis_record \<Rightarrow> error + user_record" where
  "demoDecoder r = Inr \<lparr> sequenceNumber = SequenceNumber r, userData = Data r \<rparr>"

text \<open>
  A service whose shard has the records 50 and 51 behind \<open>it-0\<close>, nothing behind \<open>it-1\<close>
  and its end behind \<open>it-2\<close>.
\<close>

definition demoGetRecords :: "string \<Rightarrow> error + get_records_output" where
  "demoGetRecords it =
     (if it = ''it-0''
      then Inr \<lparr> MillisBehindLatest = Defined 500, NextShardIterator = Defined ''it-1'',
                 Records = [\<lparr> SequenceNumber = ''50'', Data = ''a'' \<rparr>,
                            \<lparr> SequenceNumber = ''51'', Data = ''b'' \<rparr>] \<rparr>
      else if it = ''it-1''
      then Inr \<lparr> MillisBehindLatest = Defined 0, NextShardIterator = Defined ''it-2'',
                 Records = [] \<rparr>
      else if it = ''it-2''
      then Inr \<lparr> MillisBehindLatest = Defined 0, NextShardIterator = Undefined, Records = [] \<rparr>
      else Inl (ServiceError ''ExpiredIteratorException''))"

definition demoIo :: poll_io where
  "demoIo =
     \<lparr> dateNow = 1000, storeResult = (\<lambda>seq. None), iteratorResult = demoClient,
       getRecordsResult = demoGetRecords, listShardsResult = Inr demoListing,
       depletedResult = (\<lambda>shards. None), deaggregate = Inr, recordsDecoder = demoDecoder \<rparr>"


text \<open>
  A deaggregation in which every record of the batch is an aggregate of two user records,
  both under the sequence number of the aggregate.
\<close>

definition demoDeaggregate :: "kinesis_record list \<Rightarrow> error + kinesis_record list" where
  "demoDeaggregate rs =
     Inr (concat (map (\<lambda>r. [\<lparr> SequenceNumber = SequenceNumber r, Data = take 1 (Data r) \<rparr>,
                              \<lparr> SequenceNumber = SequenceNumber r, Data = drop 1 (Data r) \<rparr>])
                    rs))"

definition aggregatedGetRecords :: "string \<Rightarrow> error + get_records_output" where
  "aggregatedGetRecords it =
     Inr \<lparr> MillisBehindLatest = Defined 500, NextShardIterator = Defined ''it-1'',
           Records = [\<lparr> SequenceNumber = ''50'', Data = ''ab'' \<rparr>,
                      \<lparr> SequenceNumber = ''51'', Data = ''cd'' \<rparr>] \<rparr>"

definition aggregatedIo :: poll_io where
  "aggregatedIo =
     demoIo\<lparr> getRecordsResult := aggregatedGetRecords, deaggregate := demoDeaggregate \<rparr>"

definition aggregatedProps :: consumer_props where
  "aggregatedProps = demoConsumerProps\<lparr> shouldDeaggregate := True \<rparr>"


text \<open>
  The answers of a call of \<open>markShardAsDepleted\<close> that rejects, and of a response whose
  next iterator is \<open>null\<close>.
\<close>

definition rejectingIo :: poll_io where
  "rejectingIo =
     demoIo\<lparr> depletedResult :=
               (\<lambda>shards. Some (ServiceError ''ProvisionedThroughputExceededException'')) \<rparr>"

definition nullIo :: poll_io where
  "nullIo =
     demoIo\<lparr> getRecordsResult :=
               (\<lambda>it. Inr \<lparr> MillisBehindLatest = Null, NextShardIterator = Null,
                            Records = [] \<rparr>) \<rparr>"

text \<open>
  A shard that holds the records 50 to 54 and is closed after them. An iterator is a token
  for a position in the shard; \<open>getRecords\<close> returns records that follow the position, in
  order, with the iterator for the position after them, or without one after the last
  record of the closed shard. \<open>it-a\<close> and \<open>it-c\<close> are the iterators requested after 49 and
  after 51.
\<close>

definition closedShardIterator :: "iterator_params \<Rightarrow> error + string option" where
  "closedShardIterator p =
     (if StartingSequenceNumber p = Some ''49'' then Inr (Some ''it-a'')
      else if StartingSequenceNumber p = Some ''51'' then Inr (Some ''it-c'')
      else Inl (ServiceError ''InvalidArgumentException''))"

definition closedShardRecords :: "string \<Rightarrow> error + get_records_output" where
  "closedShardRecords it =
     (if it = ''it-a''
      then Inr \<lparr> MillisBehindLatest = Defined 900, NextShardIterator = Defined ''it-b'',
                 Records = [\<lparr> SequenceNumber = ''50'', Data = ''a'' \<rparr>,
                            \<lparr> SequenceNumber = ''51'', Data = ''b'' \<rparr>] \<rparr>
      else if it = ''it-b''
      then Inr \<lparr> MillisBehindLatest = Defined 0, NextShardIterator = Undefined,
                 Records = [\<lparr> SequenceNumber = ''52'', Data = ''c'' \<rparr>,
                            \<lparr> SequenceNumber = ''53'', Data = ''d'' \<rparr>,
                            \<lparr> SequenceNumber = ''54'', Data = ''e'' \<rparr>] \<rparr>
      else if it = ''it-c''
      then Inr \<lparr> MillisBehindLatest = Defined 300, NextShardIterator = Defined ''it-d'',
                 Records = [\<lparr> SequenceNumber = ''52'', Data = ''c'' \<rparr>,
                            \<lparr> SequenceNumber = ''53'', Data = ''d'' \<rparr>] \<rparr>
      else if it = ''it-d''
      then Inr \<lparr> MillisBehindLatest = Defined 0, NextShardIterator = Undefined,
                 Records = [\<lparr> SequenceNumber = ''54'', Data = ''e'' \<rparr>] \<rparr>
      else Inl (ServiceError ''ExpiredIteratorException''))"

definition closedShardIo :: poll_io where
  "closedShardIo =
     demoIo\<lparr> iteratorResult := closedShardIterator, getRecordsResult := closedShardRecords \<rparr>"

text \<open>The private properties of a consumer as its constructor leaves them.\<close>

definition freshState :: consumer_state where
  "freshState =
     \<lparr> checkpoint = Some ''49'', iterator = Null, seqNumToCheckpoint = None,
       leaseExpiration = 300000, timeoutId = None \<rparr>"

section \<open>Properties of getShardIterator\<close>

lemma getShardIterator_None:
  "getShardIterator client sn si ip None =
     (case client (iteratorParams sn si ip None) of
        Inr it \<Rightarrow> (Inr (orEmpty it), [iteratorParams sn si ip None])
      | Inl err \<Rightarrow> (Inl err, [iteratorParams sn si ip None]))"
  by (subst getShardIterator.simps) (auto simp: Let_def split: sum.splits)

lemma getShardIterator_step:
  "getShardIterator client sn si ip sq =
     (case client (iteratorParams sn si ip sq) of
        Inr it \<Rightarrow> (Inr (orEmpty it), [iteratorParams sn si ip sq])
      | Inl err \<Rightarrow>
          if code err = Some ''InvalidArgumentException'' \<and> truthy sq
          then (fst (getShardIterator client sn si ip None),
                iteratorParams sn si ip sq # snd (getShardIterator client sn si ip None))
          else (Inl err, [iteratorParams sn si ip sq]))"
  by (subst getShardIterator.simps) (auto simp: Let_def split: sum.splits prod.splits)

text \<open>
  Claim C7. With a (non-empty) sequence number the first request is of type
  \<open>AFTER_SEQUENCE_NUMBER\<close> at that sequence number. If the client rejects it with code
  \<open>InvalidArgumentException\<close>, exactly one more request is sent, of the initial-position
  type and without a sequence number, and its outcome is the outcome of the call. Any other
  rejection, and an \<open>InvalidArgumentException\<close> when no sequence number was given,
  is returned to the caller after the single request.
\<close>

theorem getShardIterator_fallback:
  "(truthy sq \<longrightarrow>
      (\<exists>rest. snd (getShardIterator client sn si ip sq) =
         \<lparr> ShardId = si, ShardIteratorType = ''AFTER_SEQUENCE_NUMBER'', StreamName = sn,
           StartingSequenceNumber = sq \<rparr> # rest))
   \<and> (truthy sq \<and> client (iteratorParams sn si ip sq) = Inl e
        \<and> code e = Some ''InvalidArgumentException'' \<longrightarrow>
        getShardIterator client sn si ip sq =
          (map_sum (\<lambda>x. x) orEmpty
             (client \<lparr> ShardId = si, ShardIteratorType = ip, StreamName = sn,
                        StartingSequenceNumber = None \<rparr>),
           [iteratorParams sn si ip sq,
            \<lparr> ShardId = si, ShardIteratorType = ip, StreamName = sn,
              StartingSequenceNumber = None \<rparr>]))
   \<and> (client (iteratorParams sn si ip sq) = Inl e
        \<and> (code e \<noteq> Some ''InvalidArgumentException'' \<or> \<not> truthy sq) \<longrightarrow>
        getShardIterator client sn si ip sq = (Inl e, [iteratorParams sn si ip sq]))"
proof (intro conjI impI)
  assume t: "truthy sq"
  show "\<exists>rest. snd (getShardIterator client sn si ip sq) =
         \<lparr> ShardId = si, ShardIteratorType = ''AFTER_SEQUENCE_NUMBER'', StreamName = sn,
           StartingSequenceNumber = sq \<rparr> # rest"
    using t by (subst getShardIterator_step) (auto simp: iteratorParams_def split: sum.splits)
next
  assume a: "truthy sq \<and> client (iteratorParams sn si ip sq) = Inl e
        \<and> code e = Some ''InvalidArgumentException''"
  have p2: "iteratorParams sn si ip None =
      \<lparr> ShardId = si, ShardIteratorType = ip, StreamName = sn, StartingSequenceNumber = None \<rparr>"
    by (simp add: iteratorParams_def)
  show "getShardIterator client sn si ip sq =
          (map_sum (\<lambda>x. x) orEmpty
             (client \<lparr> ShardId = si, ShardIteratorType = ip, StreamName = sn,
                        StartingSequenceNumber = None \<rparr>),
           [iteratorParams sn si ip sq,
            \<lparr> ShardId = si, ShardIteratorType = ip, StreamName = sn,
              StartingSequenceNumber = None \<rparr>])"
    using a
    by (subst getShardIterator_step) (simp add: getShardIterator_None p2 split: sum.splits)
next
  assume "client (iteratorParams sn si ip sq) = Inl e
        \<and> (code e \<noteq> Some ''InvalidArgumentException'' \<or> \<not> truthy sq)"
  then show "getShardIterator client sn si ip sq = (Inl e, [iteratorParams sn si ip sq])"
    by (subst getShardIterator_step) auto
qed

theorem getShardIterator_fallback_witness:
  "truthy (Some ''49'') \<and>
   demoClient (iteratorParams ''s'' ''shardId-0'' ''LATEST'' (Some ''49'')) =
     Inl (ServiceError ''InvalidArgumentException'') \<and>
   getShardIterator demoClient ''s'' ''shardId-0'' ''LATEST'' (Some ''49'') =
     (Inr ''it-1'',
      [\<lparr> ShardId = ''shardId-0'', ShardIteratorType = ''AFTER_SEQUENCE_NUMBER'',
         StreamName = ''s'', StartingSequenceNumber = Some ''49'' \<rparr>,
       \<lparr> ShardId = ''shardId-0'', ShardIteratorType = ''LATEST'', StreamName = ''s'',
         StartingSequenceNumber = None \<rparr>]) \<and>
   getShardIterator demoClient ''s'' ''shardId-0'' ''TRIM_HORIZON'' None =
     (Inl (ServiceError ''ResourceNotFoundException''),
      [\<lparr> ShardId = ''shardId-0'', ShardIteratorType = ''TRIM_HORIZON'', StreamName = ''s'',
         StartingSequenceNumber = None \<rparr>])"
  using getShardIterator_fallback [of "Some ''49''" demoClient "''s''" "''shardId-0''"
      "''LATEST''" "ServiceError ''InvalidArgumentException''"]
    getShardIterator_fallback [of None demoClient "''s''" "''shardId-0''" "''TRIM_HORIZON''"
      "ServiceError ''ResourceNotFoundException''"]
  by (simp add: demoClient_def iteratorParams_def)

section \<open>Properties of getStreamShards\<close>

lemma map_of_foldl_update:
  "map_of (foldl (\<lambda>obj (k, v). AList.update k v obj) acc es) k =
     (case map_of (rev es) k of None \<Rightarrow> map_of acc k | Some v \<Rightarrow> Some v)"
  by (induction es arbitrary: acc)
     (auto simp: AList.update_conv' map_of_append split: option.splits prod.splits)

lemma distinct_foldl_update:
  "distinct (map fst acc) \<Longrightarrow>
   distinct (map fst (foldl (\<lambda>obj (k, v). AList.update k v obj) acc es))"
  by (induction es arbitrary: acc) (auto simp: distinct_update)

lemma distinct_enumerationOrder:
  assumes "distinct (map fst obj)"
  shows "distinct (map fst (enumerationOrder obj))"
proof -
  have d: "distinct obj" and i: "inj_on fst (set obj)"
    using assms by (simp_all add: distinct_map)
  have "inj_on fst (set obj \<inter> {x. case x of (k, v) \<Rightarrow> arrayIndex k})"
    and "inj_on fst (set obj \<inter> {x. case x of (k, v) \<Rightarrow> \<not> arrayIndex k})"
    using i by (auto intro: inj_on_subset)
  then show ?thesis
    using d by (auto simp: enumerationOrder_def distinct_map Int_def)
qed

lemma set_enumerationOrder: "set (enumerationOrder obj) = set obj"
  by (auto simp: enumerationOrder_def)

lemma map_of_enumerationOrder:
  "distinct (map fst obj) \<Longrightarrow> map_of (enumerationOrder obj) = map_of obj"
  by (simp add: map_of_inject_set distinct_enumerationOrder set_enumerationOrder)

lemma map_of_fromEntries: "map_of (fromEntries es) k = map_of (rev es) k"
  by (simp add: fromEntries_def map_of_enumerationOrder distinct_foldl_update
      map_of_foldl_update split: option.splits)

lemma map_of_eraseMissingParent:
  "map_of (eraseMissingParent shards sid) k =
     (if k = sid
      then map_option (\<lambda>sh. if orphaned shards sh then sh\<lparr>parent := None\<rparr> else sh)
             (map_of shards k)
      else map_of shards k)"
  by (auto simp: eraseMissingParent_def AList.update_conv' split: option.splits)

lemma orphaned_cong:
  "(\<And>k. (map_of a k = None) = (map_of b k = None)) \<Longrightarrow> orphaned a = orphaned b"
  by (simp add: orphaned_def fun_eq_iff split: option.splits)

lemma orphaned_erased [simp]: "\<not> orphaned a (sh\<lparr>parent := None\<rparr>)"
  by (simp add: orphaned_def)

lemma erase_twice [simp]:
  "(if orphaned a (if orphaned a x then x\<lparr>parent := None\<rparr> else x)
    then (if orphaned a x then x\<lparr>parent := None\<rparr> else x)\<lparr>parent := None\<rparr>
    else (if orphaned a x then x\<lparr>parent := None\<rparr> else x)) =
   (if orphaned a x then x\<lparr>parent := None\<rparr> else x)"
  by simp

lemma foldl_eraseMissingParent:
  "(\<And>k. (map_of acc k = None) = (map_of shards k = None)) \<Longrightarrow>
   map_of (foldl eraseMissingParent acc ks) k =
     (if k \<in> set ks
      then map_option (\<lambda>sh. if orphaned shards sh then sh\<lparr>parent := None\<rparr> else sh)
             (map_of acc k)
      else map_of acc k)"
proof (induction ks arbitrary: acc)
  case Nil
  then show ?case by simp
next
  case (Cons a ks)
  have keys: "\<And>k. (map_of (eraseMissingParent acc a) k = None) = (map_of shards k = None)"
    using Cons.prems by (simp add: map_of_eraseMissingParent)
  have e: "orphaned acc = orphaned shards"
    using Cons.prems by (rule orphaned_cong)
  show ?case
    using Cons.IH [OF keys]
    by (auto simp: map_of_eraseMissingParent e option.map_comp comp_def split: option.splits)
qed

lemma map_of_getStreamShards:
  "map_of (getStreamShards Shards) k =
     map_option (\<lambda>sh. if orphaned (fromEntries (map shardEntry Shards)) sh
                       then sh\<lparr>parent := None\<rparr> else sh)
       (map_of (rev (map shardEntry Shards)) k)"
  unfolding getStreamShards_def Let_def
  by (subst foldl_eraseMissingParent [where shards = "fromEntries (map shardEntry Shards)"])
     (auto simp: map_of_fromEntries map_of_eq_None_iff [symmetric] simp del: map_of_eq_None_iff)

lemma map_of_rev_last:
  "k \<notin> fst ` set post \<Longrightarrow> map_of (rev (pre @ (k, v) # post)) k = Some v"
proof -
  assume "k \<notin> fst ` set post"
  then have "map_of (rev post) k = None"
    by (simp add: map_of_eq_None_iff)
  then show ?thesis
    by (simp add: map_add_def)
qed

lemma keys_getStreamShards:
  "fst ` set (getStreamShards Shards) = ListedShardId ` set Shards"
proof -
  have "(map_of (getStreamShards Shards) k = None) = (k \<notin> ListedShardId ` set Shards)" for k
    by (simp add: map_of_getStreamShards map_of_eq_None_iff image_image shardEntry_def)
  then show ?thesis
    by (auto simp: map_of_eq_None_iff)
qed

text \<open>
  Claim C9. The keys of the lineage map are the shard ids of the listing. For every shard
  \<open>s\<close> of the listing (the last entry with its id, should the listing repeat an id) whose
  advertised parent id is not the name of a property of \<open>Object.prototype\<close>, the entry
  under its id carries the shard's starting sequence number, and its parent is the
  advertised parent id when that id is present (non-empty) and is a key of the resulting
  map, and null otherwise.
\<close>

theorem getStreamShards_lineage:
  "Shards = pre @ s # post \<Longrightarrow> ListedShardId s \<notin> ListedShardId ` set post \<Longrightarrow>
   \<forall>p. ParentShardId s = Some p \<longrightarrow> p \<notin> set objectPrototype \<Longrightarrow>
   fst ` set (getStreamShards Shards) = ListedShardId ` set Shards \<and>
   map_of (getStreamShards Shards) (ListedShardId s) =
     Some \<lparr> parent =
              (case ParentShardId s of
                 None \<Rightarrow> None
               | Some p \<Rightarrow> if p \<noteq> [] \<and> p \<in> fst ` set (getStreamShards Shards)
                           then Some p else None),
            startingSequenceNumber = ListedStartingSequenceNumber s \<rparr>"
proof -
  assume S: "Shards = pre @ s # post"
    and last: "ListedShardId s \<notin> ListedShardId ` set post"
    and plain: "\<forall>p. ParentShardId s = Some p \<longrightarrow> p \<notin> set objectPrototype"
  have "fst (shardEntry s) \<notin> fst ` set (map shardEntry post)"
    using last by (simp add: image_image shardEntry_def)
  then have "map_of (rev (map shardEntry pre @
                 (fst (shardEntry s), snd (shardEntry s)) # map shardEntry post))
               (fst (shardEntry s)) = Some (snd (shardEntry s))"
    by (rule map_of_rev_last)
  then have look:
    "map_of (rev (map shardEntry Shards)) (ListedShardId s) = Some (snd (shardEntry s))"
    by (simp add: S shardEntry_def)
  have keys: "fst ` set (getStreamShards Shards) = ListedShardId ` set Shards"
    by (rule keys_getStreamShards)
  have inkeys: "(map_of (fromEntries (map shardEntry Shards)) p = None) =
      (p \<notin> fst ` set (getStreamShards Shards))" for p
    by (simp add: keys map_of_fromEntries map_of_eq_None_iff image_image shardEntry_def)
  show ?thesis
    using plain
    by (auto simp: keys [symmetric] map_of_getStreamShards look orphaned_def shardEntry_def
        inkeys split: option.splits)
qed

theorem getStreamShards_lineage_witness:
  "map_of (getStreamShards demoListing) ''shardId-1'' =
     Some \<lparr> parent = None, startingSequenceNumber = ''100'' \<rparr> \<and>
   map_of (getStreamShards demoListing) ''shardId-2'' =
     Some \<lparr> parent = Some ''shardId-1'', startingSequenceNumber = ''200'' \<rparr>"
proof -
  have keys: "fst ` set (getStreamShards demoListing) =
      {''shardId-1'', ''shardId-2'', ''shardId-3''}"
    by (simp add: keys_getStreamShards demoListing_def insert_commute)
  have a: "demoListing =
      [] @ \<lparr> ListedShardId = ''shardId-1'', ParentShardId = Some ''shardId-0'',
              ListedStartingSequenceNumber = ''100'' \<rparr> #
        [\<lparr> ListedShardId = ''shardId-2'', ParentShardId = Some ''shardId-1'',
           ListedStartingSequenceNumber = ''200'' \<rparr>,
         \<lparr> ListedShardId = ''shardId-3'', ParentShardId = None,
           ListedStartingSequenceNumber = ''300'' \<rparr>]"
    and b: "demoListing =
      [\<lparr> ListedShardId = ''shardId-1'', ParentShardId = Some ''shardId-0'',
          ListedStartingSequenceNumber = ''100'' \<rparr>] @
        \<lparr> ListedShardId = ''shardId-2'', ParentShardId = Some ''shardId-1'',
          ListedStartingSequenceNumber = ''200'' \<rparr> #
        [\<lparr> ListedShardId = ''shardId-3'', ParentShardId = None,
           ListedStartingSequenceNumber = ''300'' \<rparr>]"
    by (simp_all add: demoListing_def)
  show ?thesis
    using getStreamShards_lineage [OF a] getStreamShards_lineage [OF b]
    by (simp add: keys objectPrototype_def) (simp add: demoListing_def)
qed

text \<open>
  An advertised parent that is absent from the listing but names a property of
  \<open>Object.prototype\<close> is kept: the read \<open>shards[parent]\<close> finds the inherited property.
\<close>

lemma getStreamShards_inherited_name:
  "map_of (getStreamShards
      [\<lparr> ListedShardId = ''shardId-1'', ParentShardId = Some ''constructor'',
          ListedStartingSequenceNumber = ''100'' \<rparr>]) ''shardId-1'' =
     Some \<lparr> parent = Some ''constructor'', startingSequenceNumber = ''100'' \<rparr>"
  by (simp add: map_of_getStreamShards shardEntry_def orphaned_def objectPrototype_def)

section \<open>Paths in the document\<close>

lemma dynamo_simps [simp]:
  "client_get dynamo d = Inr (Some d)" "client_update dynamo = update_item"
  by (simp_all add: dynamo_def)


lemma get_path_append:
  "get_path (p @ q) d = (case get_path p d of None \<Rightarrow> None | Some v \<Rightarrow> get_path q v)"
  by (induction p d rule: get_path.induct) (auto split: option.splits)

lemma get_path_Cons_Some:
  "get_path (k # ks) d = Some v \<longleftrightarrow> (\<exists>m c. d = VMap m \<and> map_of m k = Some c \<and> get_path ks c = Some v)"
  by (cases d) (auto split: option.splits)

lemma set_path_frame:
  "set_path q x d = Some d' \<Longrightarrow> \<not> prefix q p \<Longrightarrow> \<not> prefix p q \<Longrightarrow>
   get_path p d' = get_path p d"
proof (induction q x d arbitrary: p d' rule: set_path.induct)
  case (2 k x m)
  then show ?case
    by (cases p) (auto simp: AList.update_conv' split: option.splits)
next
  case (3 k k' ks x m)
  then show ?case
    by (cases p) (auto simp: AList.update_conv' split: option.splits)
qed simp_all

lemma remove_path_frame:
  "remove_path q d = Some d' \<Longrightarrow> \<not> prefix q p \<Longrightarrow> \<not> prefix p q \<Longrightarrow>
   get_path p d' = get_path p d"
proof (induction q d arbitrary: p d' rule: remove_path.induct)
  case (2 k m)
  then show ?case
    by (cases p) (auto simp: AList.update_conv' AList.delete_conv' split: option.splits)
next
  case (3 k k' ks m)
  then show ?case
    by (cases p) (auto simp: AList.update_conv' split: option.splits)
qed simp_all

lemma set_path_field:
  "get_path p d = Some (VMap m) \<Longrightarrow>
   \<exists>d'. set_path (p @ [k]) x d = Some d' \<and> get_path p d' = Some (VMap (AList.update k x m))"
proof (induction p arbitrary: d)
  case Nil
  then show ?case by simp
next
  case (Cons a p)
  from Cons.prems obtain m0 c where d: "d = VMap m0" "map_of m0 a = Some c"
     "get_path p c = Some (VMap m)"
    by (auto simp: get_path_Cons_Some)
  from Cons.IH [OF d(3)] obtain c' where c': "set_path (p @ [k]) x c = Some c'"
     "get_path p c' = Some (VMap (AList.update k x m))" by blast
  obtain b bs where pk: "p @ [k] = b # bs" by (cases "p @ [k]") auto
  show ?case using d c' pk by (auto simp: AList.update_conv')
qed

lemma set_path_None_iff:
  "set_path (p @ [k]) x d = None \<longleftrightarrow> (\<forall>m. get_path p d \<noteq> Some (VMap m))"
proof (induction p arbitrary: d)
  case Nil
  then show ?case by (cases d) auto
next
  case (Cons a p)
  obtain b bs where pk: "p @ [k] = b # bs" by (cases "p @ [k]") auto
  show ?case
  proof (cases d)
    case (VMap m0)
    then show ?thesis using Cons.IH pk by (auto split: option.splits)
  qed (simp_all add: pk)
qed

lemma slotField_shardSlot:
  "slotField props sid f d =
     (case shardSlot props sid d of Some (VMap m) \<Rightarrow> map_of m f | _ \<Rightarrow> None)"
proof -
  have "shardsPath props @ [sid, f] = (shardsPath props @ [sid]) @ [f]" by simp
  then show ?thesis
    unfolding slotField_def shardSlot_def
    by (simp only: get_path_append) (auto split: option.splits val.splits)
qed

lemma apply_field_sets:
  "get_path p d = Some (VMap m) \<Longrightarrow>
   \<exists>d'. apply_actions (map (\<lambda>(k, x). Set (p @ [k]) x) kxs) d = Some d' \<and>
        get_path p d' = Some (VMap (fold (\<lambda>(k, x). AList.update k x) kxs m))"
proof (induction kxs arbitrary: d m)
  case Nil
  then show ?case by simp
next
  case (Cons kx kxs)
  obtain k x where kx: "kx = (k, x)" by (cases kx)
  from set_path_field [OF Cons.prems, of k x] obtain d1 where
    d1: "set_path (p @ [k]) x d = Some d1" "get_path p d1 = Some (VMap (AList.update k x m))"
    by blast
  from Cons.IH [OF d1(2)] show ?case using d1(1) kx by simp
qed

lemma apply_actions_frame:
  "apply_actions as d = Some d' \<Longrightarrow> \<forall>a \<in> set as. \<not> overlap (action_path a) p \<Longrightarrow>
   get_path p d' = get_path p d"
proof (induction as arbitrary: d)
  case Nil
  then show ?case by simp
next
  case (Cons a as)
  from Cons.prems(1) obtain d1 where d1: "apply_action a d = Some d1" "apply_actions as d1 = Some d'"
    by (auto split: option.splits)
  have "get_path p d1 = get_path p d"
    using d1(1) Cons.prems(2)
    by (cases a) (auto simp: overlap_def dest: set_path_frame remove_path_frame)
  then show ?case using Cons.IH [OF d1(2)] Cons.prems(2) by simp
qed

lemma lease_actions:
  "[Set (sp @ [sid, ''leaseOwner'']) a, Set (sp @ [sid, ''leaseExpiration'']) b,
    Set (sp @ [sid, ''version'']) c] =
   map (\<lambda>(k, x). Set ((sp @ [sid]) @ [k]) x)
     [(''leaseOwner'', a), (''leaseExpiration'', b), (''version'', c)]"
  by simp

lemma lease_no_overlaps:
  "no_overlaps [sp @ [sid, ''leaseOwner''], sp @ [sid, ''leaseExpiration''],
     sp @ [sid, ''version'']]"
  by (simp add: overlap_def)

lemma lease_update:
  assumes "get_path (sp @ [sid]) d = Some (VMap m)" "map_of m ''version'' = Some (VStr v)"
  shows "\<exists>d'. update_item
           \<lparr> actions = [Set (sp @ [sid, ''leaseOwner'']) a,
                         Set (sp @ [sid, ''leaseExpiration'']) b,
                         Set (sp @ [sid, ''version'']) c],
             condition = Some (PathEquals (sp @ [sid, ''version'']) (Some (VStr v))) \<rparr> d
           = Inr d' \<and>
         get_path (sp @ [sid]) d' =
           Some (VMap (AList.update ''version'' c (AList.update ''leaseExpiration'' b
                   (AList.update ''leaseOwner'' a m))))"
proof -
  have c: "get_path (sp @ [sid, ''version'']) d = Some (VStr v)"
    using assms get_path_append [of "sp @ [sid]" "[''version'']" d] by simp
  from apply_field_sets [OF assms(1),
      of "[(''leaseOwner'', a), (''leaseExpiration'', b), (''version'', c)]"]
  obtain d' where d': "apply_actions [Set (sp @ [sid, ''leaseOwner'']) a,
                         Set (sp @ [sid, ''leaseExpiration'']) b,
                         Set (sp @ [sid, ''version'']) c] d = Some d'"
     "get_path (sp @ [sid]) d' = Some (VMap (AList.update ''version'' c
        (AList.update ''leaseExpiration'' b (AList.update ''leaseOwner'' a m))))"
    by auto
  show ?thesis
    using d' c lease_no_overlaps [of sp sid] by (simp add: update_item_def)
qed

lemma lease_update_fail:
  assumes "get_path (sp @ [sid, ''version'']) d \<noteq> Some (VStr v)"
  shows "update_item
           \<lparr> actions = [Set (sp @ [sid, ''leaseOwner'']) a,
                         Set (sp @ [sid, ''leaseExpiration'']) b,
                         Set (sp @ [sid, ''version'']) c],
             condition = Some (PathEquals (sp @ [sid, ''version'']) (Some (VStr v))) \<rparr> d
           = Inl (ServiceError ''ConditionalCheckFailedException'')"
  using assms lease_no_overlaps [of sp sid] by (simp add: update_item_def)


lemma slot_of_version:
  "slotField props sid ''version'' d = Some x \<Longrightarrow>
   \<exists>m. shardSlot props sid d = Some (VMap m) \<and> map_of m ''version'' = Some x"
  by (auto simp: slotField_shardSlot split: option.splits val.splits)

lemma overlap_extend: "\<not> overlap q p \<Longrightarrow> \<not> overlap (q @ r) p"
  by (auto simp: overlap_def prefix_append dest: append_prefixD)

lemma lock_in_range:
  assumes "\<bar>now + lt\<bar> \<le> 8640000000000000"
  shows "lockShardLease props client sid lt v now uuid s =
     (case send_update client (lockShardLease_request props sid (VTime (now + lt)) v uuid) s of
        (Inr u, s') \<Rightarrow> (Inr True, s')
      | (Inl err, s') \<Rightarrow>
          if code err \<noteq> Some ''ConditionalCheckFailedException'' then (Inl err, s')
          else (Inr False, s'))"
  using assms by (simp add: lockShardLease_def toISOString_def timeClip_def)

lemma lock_out_of_range:
  assumes "\<not> \<bar>now + lt\<bar> \<le> 8640000000000000"
  shows "lockShardLease props client sid lt v now uuid s = (Inl RangeError, s)"
  using assms by (simp add: lockShardLease_def toISOString_def timeClip_def)

lemma lock_success:
  assumes "slotField props sid ''version'' (document s) = Some (VStr v)"
    and range: "\<bar>now + lt\<bar> \<le> 8640000000000000"
  shows "\<exists>m d'. shardSlot props sid (document s) = Some (VMap m) \<and>
     lockShardLease props dynamo sid lt v now uuid s =
       (Inr True, \<lparr> document = d',
          sent = sent s @ [lockShardLease_request props sid (VTime (now + lt)) v uuid] \<rparr>) \<and>
     shardSlot props sid d' =
       Some (VMap (AList.update ''version'' (VStr uuid)
         (AList.update ''leaseExpiration'' (VTime (now + lt))
           (AList.update ''leaseOwner'' (VStr (consumerId props)) m)))) \<and>
     (\<forall>p. \<not> overlap (shardsPath props @ [sid]) p \<longrightarrow> get_path p d' = get_path p (document s))"
proof -
  let ?req = "lockShardLease_request props sid (VTime (now + lt)) v uuid"
  from slot_of_version [OF assms(1)] obtain m where
    m: "get_path (shardsPath props @ [sid]) (document s) = Some (VMap m)"
       "map_of m ''version'' = Some (VStr v)"
    by (auto simp: shardSlot_def)
  from lease_update [OF m, of "VStr (consumerId props)" "VTime (now + lt)" "VStr uuid"]
  obtain d' where d': "update_item ?req (document s) = Inr d'"
     "get_path (shardsPath props @ [sid]) d' =
       Some (VMap (AList.update ''version'' (VStr uuid)
         (AList.update ''leaseExpiration'' (VTime (now + lt))
           (AList.update ''leaseOwner'' (VStr (consumerId props)) m))))"
    by (auto simp: lockShardLease_request_def)
  have app: "apply_actions (actions ?req) (document s) = Some d'"
    using d'(1) by (auto simp: update_item_def split: if_splits option.splits)
  have frame: "get_path p d' = get_path p (document s)"
    if "\<not> overlap (shardsPath props @ [sid]) p" for p
  proof (rule apply_actions_frame [OF app], rule ballI)
    fix a assume "a \<in> set (actions ?req)"
    then obtain f where "action_path a = (shardsPath props @ [sid]) @ [f]"
      by (auto simp: lockShardLease_request_def)
    then show "\<not> overlap (action_path a) p"
      using that by (simp only: overlap_extend not_False_eq_True)
  qed
  show ?thesis
    using m d' frame
    by (auto simp: lock_in_range [OF range] send_update_def dynamo_def shardSlot_def)
qed

lemma lock_failure:
  assumes "slotField props sid ''version'' (document s) \<noteq> Some (VStr v)"
    and range: "\<bar>now + lt\<bar> \<le> 8640000000000000"
  shows "lockShardLease props dynamo sid lt v now uuid s =
       (Inr False,
        s\<lparr>sent := sent s @ [lockShardLease_request props sid (VTime (now + lt)) v uuid]\<rparr>)"
  using lease_update_fail [of "shardsPath props" sid "document s" v] assms(1)
  by (simp add: lock_in_range [OF range] send_update_def dynamo_def lockShardLease_request_def
      slotField_def)

lemma lock_not_true:
  assumes "slotField props sid ''version'' (document s) \<noteq> Some (VStr v)"
  shows "fst (lockShardLease props dynamo sid lt v now uuid s) \<noteq> Inr True"
proof (cases "\<bar>now + lt\<bar> \<le> 8640000000000000")
  case True
  from lock_failure [OF assms True] show ?thesis by simp
next
  case False
  from lock_out_of_range [OF False] show ?thesis by simp
qed

section \<open>lockShardLease\<close>

lemma slotField_after:
  "shardSlot props sid d = Some (VMap m) \<Longrightarrow> slotField props sid f d = map_of m f"
  by (simp add: slotField_shardSlot)


section \<open>releaseShardLease\<close>

lemma release_success:
  assumes "slotField props sid ''version'' (document s) = Some (VStr v)"
  shows "\<exists>m d'. shardSlot props sid (document s) = Some (VMap m) \<and>
     releaseShardLease props dynamo sid v rv s =
       (Inr (Some rv), \<lparr> document = d',
                     sent = sent s @ [releaseShardLease_request props sid v rv] \<rparr>) \<and>
     shardSlot props sid d' =
       Some (VMap (AList.update ''version'' (VStr rv)
         (AList.update ''leaseExpiration'' VNull (AList.update ''leaseOwner'' VNull m))))"
proof -
  from slot_of_version [OF assms] obtain m where
    m: "get_path (shardsPath props @ [sid]) (document s) = Some (VMap m)"
       "map_of m ''version'' = Some (VStr v)"
    by (auto simp: shardSlot_def)
  from lease_update [OF m, of VNull VNull "VStr rv"]
  obtain d' where d': "update_item (releaseShardLease_request props sid v rv) (document s)
       = Inr d'"
     "get_path (shardsPath props @ [sid]) d' =
       Some (VMap (AList.update ''version'' (VStr rv)
         (AList.update ''leaseExpiration'' VNull (AList.update ''leaseOwner'' VNull m))))"
    by (auto simp: releaseShardLease_request_def)
  show ?thesis
    using m d'
    by (auto simp: releaseShardLease_def send_update_def dynamo_def shardSlot_def)
qed

lemma release_failure:
  assumes "slotField props sid ''version'' (document s) \<noteq> Some (VStr v)"
  shows "releaseShardLease props dynamo sid v rv s =
       (Inr None, s\<lparr>sent := sent s @ [releaseShardLease_request props sid v rv]\<rparr>)"
  using lease_update_fail [of "shardsPath props" sid "document s" v] assms
  by (simp add: releaseShardLease_def send_update_def dynamo_def releaseShardLease_request_def
      slotField_def)

text \<open>
  Claim C8. Against the reference client, when the version stored in the shard slot equals
  the expected version, \<open>releaseShardLease\<close> sets \<open>leaseOwner\<close> and \<open>leaseExpiration\<close>
  to null, stores the generated version and returns that same version, leaving every other
  attribute of the slot as before. When the condition fails it returns null and the document
  is unchanged. With any client, an update error whose code is not
  \<open>ConditionalCheckFailedException\<close> is returned to the caller.
\<close>

theorem releaseShardLease_compare_and_set:
  "(slotField props sid ''version'' (document s) = Some (VStr v) \<longrightarrow>
      fst (releaseShardLease props dynamo sid v rv s) = Inr (Some rv) \<and>
      slotField props sid ''leaseOwner''
        (document (snd (releaseShardLease props dynamo sid v rv s))) = Some VNull \<and>
      slotField props sid ''leaseExpiration''
        (document (snd (releaseShardLease props dynamo sid v rv s))) = Some VNull \<and>
      slotField props sid ''version''
        (document (snd (releaseShardLease props dynamo sid v rv s))) = Some (VStr rv) \<and>
      (\<forall>f. f \<notin> {''leaseOwner'', ''leaseExpiration'', ''version''} \<longrightarrow>
         slotField props sid f (document (snd (releaseShardLease props dynamo sid v rv s))) =
         slotField props sid f (document s)))
   \<and> (slotField props sid ''version'' (document s) \<noteq> Some (VStr v) \<longrightarrow>
        releaseShardLease props dynamo sid v rv s =
          (Inr None, s\<lparr>sent := sent s @ [releaseShardLease_request props sid v rv]\<rparr>))
   \<and> (client_update c (releaseShardLease_request props sid v rv) (document s) = Inl e
        \<and> code e \<noteq> Some ''ConditionalCheckFailedException'' \<longrightarrow>
        releaseShardLease props c sid v rv s =
          (Inl e, s\<lparr>sent := sent s @ [releaseShardLease_request props sid v rv]\<rparr>))"
proof -
  let ?r = "releaseShardLease props dynamo sid v rv s"
  let ?ok = "slotField props sid ''version'' (document s) = Some (VStr v)"
  have fail: "?r = (Inr None,
      s\<lparr>sent := sent s @ [releaseShardLease_request props sid v rv]\<rparr>)" if "\<not> ?ok"
    using that by (rule release_failure)
  have succ: "fst ?r = Inr (Some rv) \<and>
      slotField props sid ''leaseOwner'' (document (snd ?r)) = Some VNull \<and>
      slotField props sid ''leaseExpiration'' (document (snd ?r)) = Some VNull \<and>
      slotField props sid ''version'' (document (snd ?r)) = Some (VStr rv) \<and>
      (\<forall>f. f \<notin> {''leaseOwner'', ''leaseExpiration'', ''version''} \<longrightarrow>
         slotField props sid f (document (snd ?r)) = slotField props sid f (document s))"
    if ok: ?ok
  proof -
    from release_success [OF ok, of rv] obtain m d' where
      m: "shardSlot props sid (document s) = Some (VMap m)"
      and r: "?r = (Inr (Some rv), \<lparr> document = d',
                     sent = sent s @ [releaseShardLease_request props sid v rv] \<rparr>)"
      and d': "shardSlot props sid d' =
         Some (VMap (AList.update ''version'' (VStr rv)
           (AList.update ''leaseExpiration'' VNull (AList.update ''leaseOwner'' VNull m))))"
      by blast
    show ?thesis
      by (simp add: r slotField_after [OF d'] slotField_after [OF m] AList.update_conv')
  qed
  have rethrow: "releaseShardLease props c sid v rv s =
          (Inl e, s\<lparr>sent := sent s @ [releaseShardLease_request props sid v rv]\<rparr>)"
    if "client_update c (releaseShardLease_request props sid v rv) (document s) = Inl e"
       "code e \<noteq> Some ''ConditionalCheckFailedException''"
    using that by (simp add: releaseShardLease_def send_update_def)
  show ?thesis
    using succ fail rethrow by blast
qed

theorem releaseShardLease_compare_and_set_witness:
  "slotField demoProps ''shardId-0'' ''version'' (document demoStore) = Some (VStr ''v1'') \<and>
   fst (releaseShardLease demoProps dynamo ''shardId-0'' ''v1'' ''v2'' demoStore)
     = Inr (Some ''v2'') \<and>
   slotField demoProps ''shardId-0'' ''version''
     (document (snd (releaseShardLease demoProps dynamo ''shardId-0'' ''v1'' ''v2'' demoStore)))
     = Some (VStr ''v2'') \<and>
   releaseShardLease demoProps dynamo ''shardId-0'' ''v0'' ''v2'' demoStore
     = (Inr None,
        demoStore\<lparr>sent := [releaseShardLease_request demoProps ''shardId-0'' ''v0'' ''v2'']\<rparr>) \<and>
   fst (releaseShardLease demoProps (failingClient (ServiceError ''NetworkingError''))
          ''shardId-0'' ''v1'' ''v2'' demoStore)
     = Inl (ServiceError ''NetworkingError'')"
proof -
  have v: "slotField demoProps ''shardId-0'' ''version'' (document demoStore) = Some (VStr ''v1'')"
    by (simp add: slotField_def shardsPath_def demoProps_def demoStore_def demoDocument_def demoItem_def demoShardsMap_def demoParentRecord_def)
  have f: "client_update (failingClient (ServiceError ''NetworkingError''))
       (releaseShardLease_request demoProps ''shardId-0'' ''v1'' ''v2'')
       (document demoStore) = Inl (ServiceError ''NetworkingError'')"
    by (simp add: failingClient_def)
  have e: "sent demoStore = []"
    by (simp add: demoStore_def)
  show ?thesis
    using v f e
      releaseShardLease_compare_and_set [of demoProps "''shardId-0''" demoStore "''v1''" "''v2''"
        "failingClient (ServiceError ''NetworkingError'')" "ServiceError ''NetworkingError''"]
      releaseShardLease_compare_and_set [of demoProps "''shardId-0''" demoStore "''v0''" "''v2''"
        dynamo TypeError]
    by simp
qed

section \<open>clearOldConsumers\<close>

lemma oldConsumers_filter:
  "oldConsumers dateParse now t cs = Inr old \<Longrightarrow>
   old = map fst (filter (\<lambda>(k, c). isOld dateParse now t c = Inr True) cs)"
  by (induction cs arbitrary: old) (auto split: sum.splits if_splits)

lemma oldConsumers_none:
  "\<forall>(k, c) \<in> set cs. isOld dateParse now t c = Inr False \<Longrightarrow> oldConsumers dateParse now t cs = Inr []"
  by (induction cs) auto

lemma isOld_heartbeat:
  "map_of m ''heartbeat'' = Some (VTime hb) \<Longrightarrow> \<bar>hb\<bar> \<le> 8640000000000000 \<Longrightarrow>
   isOld dateParse now t (VMap m) = Inr (now - hb > t)"
  by (simp add: isOld_def timeClip_def)

lemma remove_consumers:
  "map_of item ''consumers'' = Some (VMap cs) \<Longrightarrow>
   \<exists>item'. apply_actions (map (\<lambda>cid. Remove [''consumers'', cid]) old) (VMap item) =
              Some (VMap item') \<and>
           map_of item' ''consumers'' = Some (VMap (filter (\<lambda>(k, c). k \<notin> set old) cs)) \<and>
           (\<forall>k. k \<noteq> ''consumers'' \<longrightarrow> map_of item' k = map_of item k)"
proof (induction old arbitrary: item cs)
  case Nil
  then show ?case by simp
next
  case (Cons a old)
  let ?item1 = "AList.update ''consumers'' (VMap (AList.delete a cs)) item"
  have 1: "map_of ?item1 ''consumers'' = Some (VMap (AList.delete a cs))"
    by (simp add: AList.update_conv')
  from Cons.IH [OF 1] obtain item' where
    i: "apply_actions (map (\<lambda>cid. Remove [''consumers'', cid]) old) (VMap ?item1) =
          Some (VMap item')"
       "map_of item' ''consumers'' =
          Some (VMap (filter (\<lambda>(k, c). k \<notin> set old) (AList.delete a cs)))"
       "\<forall>k. k \<noteq> ''consumers'' \<longrightarrow> map_of item' k = map_of ?item1 k"
    by blast
  have f: "filter (\<lambda>(k, c). k \<notin> set old) (AList.delete a cs) =
      filter (\<lambda>(k, c). k \<notin> set (a # old)) cs"
    by (induction cs) (auto simp: AList.delete_eq)
  show ?case
    using Cons.prems i f by (auto simp: AList.update_conv')
qed

lemma no_overlaps_append:
  "no_overlaps (ps @ qs) =
     (no_overlaps ps \<and> no_overlaps qs \<and> (\<forall>p \<in> set ps. \<forall>q \<in> set qs. \<not> overlap p q))"
  by (induction ps) auto

lemma no_overlaps_consumers:
  "distinct old \<Longrightarrow> no_overlaps (map (\<lambda>cid. [''consumers'', cid]) old)"
  by (induction old) (auto simp: overlap_def)

lemma clear_request_no_overlaps:
  "distinct old \<Longrightarrow>
   no_overlaps (map action_path (actions (clearOldConsumers_request old v uuid)))"
  by (simp add: clearOldConsumers_request_def no_overlaps_append comp_def
      no_overlaps_consumers overlap_def)

lemma clear_update:
  assumes "map_of item ''consumers'' = Some (VMap cs)" "map_of item ''version'' = Some v"
    "distinct old"
  shows "\<exists>item'. update_item (clearOldConsumers_request old (Some v) uuid) (VMap item) =
            Inr (VMap item') \<and>
          map_of item' ''consumers'' = Some (VMap (filter (\<lambda>(k, c). k \<notin> set old) cs)) \<and>
          map_of item' ''version'' = Some (VStr uuid) \<and>
          (\<forall>k. k \<noteq> ''consumers'' \<and> k \<noteq> ''version'' \<longrightarrow> map_of item' k = map_of item k)"
proof -
  from remove_consumers [OF assms(1), of old] obtain item1 where
    i: "apply_actions (map (\<lambda>cid. Remove [''consumers'', cid]) old) (VMap item) =
          Some (VMap item1)"
       "map_of item1 ''consumers'' = Some (VMap (filter (\<lambda>(k, c). k \<notin> set old) cs))"
       "\<forall>k. k \<noteq> ''consumers'' \<longrightarrow> map_of item1 k = map_of item k"
    by blast
  have app: "apply_actions (as @ bs) d =
      (case apply_actions as d of None \<Rightarrow> None | Some d' \<Rightarrow> apply_actions bs d')" for as bs d
    by (induction as arbitrary: d) (auto split: option.splits)
  have "apply_actions (actions (clearOldConsumers_request old (Some v) uuid)) (VMap item) =
      Some (VMap (AList.update ''version'' (VStr uuid) item1))"
    by (simp add: clearOldConsumers_request_def app i(1))
  then show ?thesis
    using clear_request_no_overlaps [OF assms(3), of "Some v" uuid] assms(2) i(2,3)
    by (auto simp: update_item_def clearOldConsumers_request_def AList.update_conv')
qed

lemma clear_update_guard:
  "get_path [''version''] d \<noteq> Some v \<Longrightarrow> distinct old \<Longrightarrow>
   update_item (clearOldConsumers_request old (Some v) uuid) d =
     Inl (ServiceError ''ConditionalCheckFailedException'')"
  using clear_request_no_overlaps [of old "Some v" uuid]
  by (simp add: update_item_def) (simp add: clearOldConsumers_request_def)

lemma oldConsumers_distinct:
  "distinct (map fst cs) \<Longrightarrow> oldConsumers dateParse now t cs = Inr old \<Longrightarrow> distinct old"
  using oldConsumers_filter [of dateParse now t cs old] by (simp add: distinct_map_filter)


text \<open>
  A heartbeat that is not an ISO string is read through the parser of the engine, and a
  number outside the range of the time values is no instant at all.
\<close>

lemma isOld_other_heartbeats:
  "isOld demoParse 120000 60000
     (VMap [(''heartbeat'', VStr ''Thu, 01 Jan 1970 00:00:10 GMT'')]) = Inr True \<and>
   isOld demoParse 120000 60000 (VMap [(''heartbeat'', VStr ''soon'')]) = Inr False \<and>
   isOld demoParse 120000 60000 (VMap [(''heartbeat'', VNum (- 8640000000000001))])
     = Inr False"
  by (simp add: isOld_def demoParse_def timeClip_def)

text \<open>
  Claim C10. On a document whose \<open>consumers\<close> attribute is a map, whatever the heartbeats
  are and however the engine parses dates: when the filter of \<open>clearOldConsumers\<close> finds no
  consumer old (for a consumer whose heartbeat is the ISO string of a valid instant: its
  age \<open>now - heartbeat\<close> does not exceed the timeout), the operation returns after the
  read with the store exactly as it was, no update request sent. If the store changed at
  all, some consumer was old. When some consumer is old, one update is sent, conditioned on
  the top-level version read before; it is rejected on any document whose version differs,
  and applied it removes exactly the old consumers, stores the generated version and leaves
  every other top-level attribute as it was.
\<close>

theorem clearOldConsumers_frame:
  "document s = VMap item \<Longrightarrow> map_of item ''consumers'' = Some (VMap cs) \<Longrightarrow>
   distinct (map fst cs) \<Longrightarrow>
   (\<forall>m hb. map_of m ''heartbeat'' = Some (VTime hb) \<and> \<bar>hb\<bar> \<le> 8640000000000000 \<longrightarrow>
       isOld dateParse now timeout (VMap m) = Inr (now - hb > timeout))
   \<and> ((\<forall>(cid, c) \<in> set cs. isOld dateParse now timeout c = Inr False) \<longrightarrow>
        clearOldConsumers props dynamo dateParse timeout now uuid s = (Inr (), s))
   \<and> (snd (clearOldConsumers props dynamo dateParse timeout now uuid s) \<noteq> s \<longrightarrow>
        (\<exists>(cid, c) \<in> set cs. isOld dateParse now timeout c = Inr True))
   \<and> (\<forall>old v. oldConsumers dateParse now timeout cs = Inr old \<and> old \<noteq> [] \<and>
         map_of item ''version'' = Some v \<longrightarrow>
         set old = {cid. \<exists>c. (cid, c) \<in> set cs \<and> isOld dateParse now timeout c = Inr True} \<and>
         (\<forall>d. get_path [''version''] d \<noteq> Some v \<longrightarrow>
            update_item (clearOldConsumers_request old (Some v) uuid) d =
              Inl (ServiceError ''ConditionalCheckFailedException'')) \<and>
         (\<exists>item'. clearOldConsumers props dynamo dateParse timeout now uuid s =
            (Inr (), \<lparr> document = VMap item',
                        sent = sent s @ [clearOldConsumers_request old (Some v) uuid] \<rparr>) \<and>
            map_of item' ''consumers'' = Some (VMap (filter (\<lambda>(k, c). k \<notin> set old) cs)) \<and>
            map_of item' ''version'' = Some (VStr uuid) \<and>
            (\<forall>k. k \<noteq> ''consumers'' \<and> k \<noteq> ''version'' \<longrightarrow> map_of item' k = map_of item k)))"
proof -
  assume doc: "document s = VMap item" and cons: "map_of item ''consumers'' = Some (VMap cs)"
    and dist: "distinct (map fst cs)"
  let ?r = "clearOldConsumers props dynamo dateParse timeout now uuid s"
  have unfold: "?r =
     (case oldConsumers dateParse now timeout cs of
        Inl err \<Rightarrow> (Inl err, s)
      | Inr old \<Rightarrow>
          if old = [] then (Inr (), s)
          else (case send_update dynamo
                       (clearOldConsumers_request old (map_of item ''version'') uuid) s of
                  (Inr u, s') \<Rightarrow> (Inr (), s')
                | (Inl err, s') \<Rightarrow>
                    if code err \<noteq> Some ''ConditionalCheckFailedException''
                    then (Inl err, s') else (Inr (), s')))"
    by (simp add: clearOldConsumers_def getStreamState_def doc cons)
  have hb: "\<forall>m hb. map_of m ''heartbeat'' = Some (VTime hb) \<and> \<bar>hb\<bar> \<le> 8640000000000000 \<longrightarrow>
       isOld dateParse now timeout (VMap m) = Inr (now - hb > timeout)"
    by (simp add: isOld_heartbeat)
  have quiet: "(\<forall>(cid, c) \<in> set cs. isOld dateParse now timeout c = Inr False) \<longrightarrow> ?r = (Inr (), s)"
  proof
    assume "\<forall>(cid, c) \<in> set cs. isOld dateParse now timeout c = Inr False"
    from oldConsumers_none [OF this] show "?r = (Inr (), s)" by (simp add: unfold)
  qed
  have changed: "snd ?r \<noteq> s \<longrightarrow> (\<exists>(cid, c) \<in> set cs. isOld dateParse now timeout c = Inr True)"
  proof
    assume ne: "snd ?r \<noteq> s"
    show "\<exists>(cid, c) \<in> set cs. isOld dateParse now timeout c = Inr True"
    proof (cases "oldConsumers dateParse now timeout cs")
      case (Inl e)
      then show ?thesis using ne by (simp add: unfold)
    next
      case (Inr old)
      with ne have "old \<noteq> []" by (auto simp: unfold)
      then obtain a where "a \<in> set old" by (cases old) auto
      then have "a \<in> fst ` {x \<in> set cs. case x of (k, c) \<Rightarrow> isOld dateParse now timeout c = Inr True}"
        using oldConsumers_filter [OF Inr] by simp
      then show ?thesis by fastforce
    qed
  qed
  have mut: "\<forall>old v. oldConsumers dateParse now timeout cs = Inr old \<and> old \<noteq> [] \<and>
         map_of item ''version'' = Some v \<longrightarrow>
         set old = {cid. \<exists>c. (cid, c) \<in> set cs \<and> isOld dateParse now timeout c = Inr True} \<and>
         (\<forall>d. get_path [''version''] d \<noteq> Some v \<longrightarrow>
            update_item (clearOldConsumers_request old (Some v) uuid) d =
              Inl (ServiceError ''ConditionalCheckFailedException'')) \<and>
         (\<exists>item'. ?r =
            (Inr (), \<lparr> document = VMap item',
                        sent = sent s @ [clearOldConsumers_request old (Some v) uuid] \<rparr>) \<and>
            map_of item' ''consumers'' = Some (VMap (filter (\<lambda>(k, c). k \<notin> set old) cs)) \<and>
            map_of item' ''version'' = Some (VStr uuid) \<and>
            (\<forall>k. k \<noteq> ''consumers'' \<and> k \<noteq> ''version'' \<longrightarrow> map_of item' k = map_of item k))"
  proof (intro allI impI, elim conjE)
    fix old v
    assume old: "oldConsumers dateParse now timeout cs = Inr old" "old \<noteq> []"
      and v: "map_of item ''version'' = Some v"
    have d: "distinct old" using dist old(1) by (rule oldConsumers_distinct)
    have "set old = fst ` {x \<in> set cs. case x of (k, c) \<Rightarrow> isOld dateParse now timeout c = Inr True}"
      using oldConsumers_filter [OF old(1)] by simp
    also have "\<dots> = {cid. \<exists>c. (cid, c) \<in> set cs \<and> isOld dateParse now timeout c = Inr True}"
      by (auto simp: image_iff)
    finally have set: "set old = {cid. \<exists>c. (cid, c) \<in> set cs \<and> isOld dateParse now timeout c = Inr True}" .
    from clear_update [OF cons v d, of uuid] obtain item' where
      i: "update_item (clearOldConsumers_request old (Some v) uuid) (VMap item) =
            Inr (VMap item')"
         "map_of item' ''consumers'' = Some (VMap (filter (\<lambda>(k, c). k \<notin> set old) cs))"
         "map_of item' ''version'' = Some (VStr uuid)"
         "\<forall>k. k \<noteq> ''consumers'' \<and> k \<noteq> ''version'' \<longrightarrow> map_of item' k = map_of item k"
      by blast
    have r: "?r = (Inr (), \<lparr> document = VMap item',
                        sent = sent s @ [clearOldConsumers_request old (Some v) uuid] \<rparr>)"
      using old v i(1) by (simp add: unfold send_update_def doc)
    have g: "\<forall>d. get_path [''version''] d \<noteq> Some v \<longrightarrow>
            update_item (clearOldConsumers_request old (Some v) uuid) d =
              Inl (ServiceError ''ConditionalCheckFailedException'')"
      using clear_update_guard [OF _ d] by blast
    have ex: "\<exists>item'. ?r =
            (Inr (), \<lparr> document = VMap item',
                        sent = sent s @ [clearOldConsumers_request old (Some v) uuid] \<rparr>) \<and>
            map_of item' ''consumers'' = Some (VMap (filter (\<lambda>(k, c). k \<notin> set old) cs)) \<and>
            map_of item' ''version'' = Some (VStr uuid) \<and>
            (\<forall>k. k \<noteq> ''consumers'' \<and> k \<noteq> ''version'' \<longrightarrow> map_of item' k = map_of item k)"
      using r i(2,3,4) by (intro exI [of _ item'] conjI)
    show "set old = {cid. \<exists>c. (cid, c) \<in> set cs \<and> isOld dateParse now timeout c = Inr True} \<and>
         (\<forall>d. get_path [''version''] d \<noteq> Some v \<longrightarrow>
            update_item (clearOldConsumers_request old (Some v) uuid) d =
              Inl (ServiceError ''ConditionalCheckFailedException'')) \<and>
         (\<exists>item'. ?r =
            (Inr (), \<lparr> document = VMap item',
                        sent = sent s @ [clearOldConsumers_request old (Some v) uuid] \<rparr>) \<and>
            map_of item' ''consumers'' = Some (VMap (filter (\<lambda>(k, c). k \<notin> set old) cs)) \<and>
            map_of item' ''version'' = Some (VStr uuid) \<and>
            (\<forall>k. k \<noteq> ''consumers'' \<and> k \<noteq> ''version'' \<longrightarrow> map_of item' k = map_of item k))"
      by (rule conjI [OF set conjI [OF g ex]])
  qed
  show ?thesis
    by (rule conjI [OF hb conjI [OF quiet conjI [OF changed mut]]])
qed

theorem clearOldConsumers_frame_witness:
  "clearOldConsumers demoProps dynamo demoParse 60000 50000 ''d2'' demoStore = (Inr (), demoStore) \<and>
   (\<exists>item'. clearOldConsumers demoProps dynamo demoParse 60000 120000 ''d2'' demoStore =
      (Inr (), \<lparr> document = VMap item',
          sent = [clearOldConsumers_request [''B''] (Some (VStr ''d1'')) ''d2''] \<rparr>) \<and>
      map_of item' ''consumers'' =
        Some (VMap [(''A'', VMap [(''heartbeat'', VTime 100000), (''isStandalone'', VBool False)])]) \<and>
      map_of item' ''version'' = Some (VStr ''d2''))"
proof -
  have doc: "document demoStore = VMap demoItem"
    by (simp add: demoStore_def demoDocument_def)
  have cons: "map_of demoItem ''consumers'' = Some (VMap demoConsumers)"
    by (simp add: demoItem_def)
  have dist: "distinct (map fst demoConsumers)"
    by (simp add: demoConsumers_def)
  have young: "\<forall>(cid, c) \<in> set demoConsumers. isOld demoParse 50000 60000 c = Inr False"
    by (simp add: demoConsumers_def isOld_def timeClip_def)
  have old: "oldConsumers demoParse 120000 60000 demoConsumers = Inr [''B'']"
    by (simp add: demoConsumers_def isOld_def timeClip_def)
  have v: "map_of demoItem ''version'' = Some (VStr ''d1'')"
    by (simp add: demoItem_def)
  have e: "sent demoStore = []"
    by (simp add: demoStore_def)
  have f: "filter (\<lambda>(k, c). k \<notin> set [''B'']) demoConsumers =
      [(''A'', VMap [(''heartbeat'', VTime 100000), (''isStandalone'', VBool False)])]"
    by (simp add: demoConsumers_def)
  from clearOldConsumers_frame [OF doc cons dist, of demoParse 50000 60000 demoProps "''d2''"] young
  have 1: "clearOldConsumers demoProps dynamo demoParse 60000 50000 ''d2'' demoStore = (Inr (), demoStore)"
    by blast
  from clearOldConsumers_frame [OF doc cons dist, of demoParse 120000 60000 demoProps "''d2''"] old v
  have 2: "\<exists>item'. clearOldConsumers demoProps dynamo demoParse 60000 120000 ''d2'' demoStore =
      (Inr (), \<lparr> document = VMap item',
          sent = sent demoStore @ [clearOldConsumers_request [''B''] (Some (VStr ''d1'')) ''d2''] \<rparr>) \<and>
      map_of item' ''consumers'' =
        Some (VMap (filter (\<lambda>(k, c). k \<notin> set [''B'']) demoConsumers)) \<and>
      map_of item' ''version'' = Some (VStr ''d2'') \<and>
      (\<forall>k. k \<noteq> ''consumers'' \<and> k \<noteq> ''version'' \<longrightarrow> map_of item' k = map_of demoItem k)"
    by blast
  show ?thesis
    using 1 2 unfolding e f by auto
qed

section \<open>Depletion is preserved\<close>

lemma get_path_prefix:
  "prefix q p \<Longrightarrow> get_path p d = Some v \<Longrightarrow> get_path q d \<noteq> None"
  by (auto simp: prefix_def get_path_append split: option.splits)

lemma get_set_path: "set_path p x d = Some d' \<Longrightarrow> get_path p d' = Some x"
  by (induction p x d arbitrary: d' rule: set_path.induct)
     (auto simp: AList.update_conv' split: option.splits)

lemma get_set_prefix:
  "set_path q x d = Some d' \<Longrightarrow> prefix q p \<Longrightarrow> get_path p d' = get_path (drop (length q) p) x"
  by (auto simp: prefix_def get_path_append get_set_path)

lemma get_remove_path: "remove_path q d = Some d' \<Longrightarrow> get_path q d' = None"
  by (induction q d arbitrary: d' rule: remove_path.induct)
     (auto simp: AList.update_conv' AList.delete_conv' split: option.splits)

lemma get_remove_prefix:
  "remove_path q d = Some d' \<Longrightarrow> prefix q p \<Longrightarrow> get_path p d' = None"
  by (auto simp: prefix_def get_path_append get_remove_path)

lemma action_preserves:
  "get_path p d = Some x \<Longrightarrow> apply_action a d = Some d' \<Longrightarrow>
   \<not> overlap (action_path a) p \<or> a = Set p x \<Longrightarrow> get_path p d' = Some x"
  by (cases a) (auto simp: overlap_def get_set_path dest: set_path_frame remove_path_frame)

lemma actions_preserve:
  "get_path p d = Some x \<Longrightarrow> apply_actions as d = Some d' \<Longrightarrow>
   \<forall>a \<in> set as. \<not> overlap (action_path a) p \<or> a = Set p x \<Longrightarrow> get_path p d' = Some x"
proof (induction as arbitrary: d)
  case Nil
  then show ?case by simp
next
  case (Cons a as)
  from Cons.prems(2) obtain d1 where
    d1: "apply_action a d = Some d1" "apply_actions as d1 = Some d'"
    by (auto split: option.splits)
  have "get_path p d1 = Some x"
    using Cons.prems(1) d1(1) Cons.prems(3) by (auto intro: action_preserves)
  then show ?case
    using Cons.IH [OF _ d1(2)] Cons.prems(3) by simp
qed

lemma update_preserves:
  assumes "get_path p d = Some x" "update_item req d = Inr d'"
    "\<forall>a \<in> set (actions req). \<not> overlap (action_path a) p \<or> a = Set p x \<or>
       (prefix (action_path a) p \<and>
        condition req = Some (AttributeNotExists (action_path a)))"
  shows "get_path p d' = Some x"
proof -
  have app: "apply_actions (actions req) d = Some d'"
    and cond: "\<And>c. condition req = Some c \<Longrightarrow> holds c d"
    using assms(2) by (auto simp: update_item_def split: if_splits option.splits)
  have "\<not> overlap (action_path a) p \<or> a = Set p x" if a: "a \<in> set (actions req)" for a
  proof (rule ccontr)
    assume n: "\<not> (\<not> overlap (action_path a) p \<or> a = Set p x)"
    with assms(3) a have pre: "prefix (action_path a) p"
      and c: "condition req = Some (AttributeNotExists (action_path a))" by auto
    from cond [OF c] have "get_path (action_path a) d = None" by simp
    with get_path_prefix [OF pre assms(1)] show False by simp
  qed
  then show ?thesis
    using actions_preserve [OF assms(1) app] by blast
qed

lemma send_update_preserves:
  assumes "get_path p (document s) = Some x"
    "\<forall>a \<in> set (actions req). \<not> overlap (action_path a) p \<or> a = Set p x \<or>
       (prefix (action_path a) p \<and>
        condition req = Some (AttributeNotExists (action_path a)))"
  shows "get_path p (document (snd (send_update dynamo req s))) = Some x"
proof (cases "update_item req (document s)")
  case (Inl e)
  then show ?thesis using assms(1) by (simp add: send_update_def)
next
  case (Inr d')
  from update_preserves [OF assms(1) Inr assms(2)] show ?thesis
    using Inr by (simp add: send_update_def)
qed

lemma snd_ensure:
  "snd (ensureShardStateExists props client c sd u s) =
   snd (send_update client (ensureShardStateExists_request props c sd u) s)"
  by (auto simp: ensureShardStateExists_def split: prod.splits sum.splits)

lemma snd_lock:
  "snd (lockShardLease props client c lt v now u s) = s \<or>
   snd (lockShardLease props client c lt v now u s) =
   snd (send_update client (lockShardLease_request props c (VTime (now + lt)) v u) s)"
proof (cases "\<bar>now + lt\<bar> \<le> 8640000000000000")
  case True
  show ?thesis
    by (auto simp: lock_in_range [OF True] split: prod.splits sum.splits)
next
  case False
  show ?thesis
    by (simp add: lock_out_of_range [OF False])
qed

lemma snd_release:
  "snd (releaseShardLease props client c v rv s) =
   snd (send_update client (releaseShardLease_request props c v rv) s)"
  by (auto simp: releaseShardLease_def split: prod.splits sum.splits)

lemma ensure_preserves:
  assumes "get_path (shardsPath props @ [sid, ''depleted'']) (document s) = Some (VBool True)"
  shows "get_path (shardsPath props @ [sid, ''depleted''])
           (document (snd (ensureShardStateExists props' dynamo c sd u s))) = Some (VBool True)"
  unfolding snd_ensure
  by (rule send_update_preserves [OF assms])
     (auto simp: ensureShardStateExists_request_def shardsPath_def overlap_def)

lemma lock_preserves:
  assumes "get_path (shardsPath props @ [sid, ''depleted'']) (document s) = Some (VBool True)"
  shows "get_path (shardsPath props @ [sid, ''depleted''])
           (document (snd (lockShardLease props' dynamo c lt v now u s))) = Some (VBool True)"
proof -
  have "get_path (shardsPath props @ [sid, ''depleted''])
      (document (snd (send_update dynamo
         (lockShardLease_request props' c (VTime (now + lt)) v u) s))) = Some (VBool True)"
    by (rule send_update_preserves [OF assms])
       (auto simp: lockShardLease_request_def shardsPath_def overlap_def)
  then show ?thesis
    using assms snd_lock [of props' dynamo c lt v now u s] by auto
qed

lemma release_preserves:
  assumes "get_path (shardsPath props @ [sid, ''depleted'']) (document s) = Some (VBool True)"
  shows "get_path (shardsPath props @ [sid, ''depleted''])
           (document (snd (releaseShardLease props' dynamo c v rv s))) = Some (VBool True)"
  unfolding snd_release
  by (rule send_update_preserves [OF assms])
     (auto simp: releaseShardLease_request_def shardsPath_def overlap_def)

lemma checkpoint_preserves:
  assumes "get_path (shardsPath props @ [sid, ''depleted'']) (document s) = Some (VBool True)"
  shows "get_path (shardsPath props @ [sid, ''depleted''])
           (document (snd (storeShardCheckpoint props' dynamo c cp u s))) = Some (VBool True)"
  unfolding storeShardCheckpoint_def
  by (rule send_update_preserves [OF assms])
     (auto simp: storeShardCheckpoint_request_def shardsPath_def overlap_def)

lemma register_preserves:
  assumes "get_path (shardsPath props @ [sid, ''depleted'']) (document s) = Some (VBool True)"
  shows "get_path (shardsPath props @ [sid, ''depleted''])
           (document (snd (registerConsumer props' dynamo now st s))) = Some (VBool True)"
proof -
  let ?p = "shardsPath props @ [sid, ''depleted'']"
  let ?s1 = "snd (send_update dynamo (registerConsumer_request props' now st) s)"
  have 1: "get_path ?p (document ?s1) = Some (VBool True)"
    by (rule send_update_preserves [OF assms])
       (auto simp: registerConsumer_request_def shardsPath_def overlap_def)
  have 2: "get_path ?p (document (snd (send_update dynamo (heartbeat_request props' now) ?s1)))
      = Some (VBool True)"
    by (rule send_update_preserves [OF 1])
       (auto simp: heartbeat_request_def shardsPath_def overlap_def)
  show ?thesis
    using 1 2 by (auto simp: registerConsumer_def split: prod.splits sum.splits)
qed

lemma snd_clear:
  "snd (clearOldConsumers props client dp t now u s) = s \<or>
   (\<exists>old v. snd (clearOldConsumers props client dp t now u s) =
      snd (send_update client (clearOldConsumers_request old v u) s))"
  by (auto simp: clearOldConsumers_def split: prod.splits sum.splits) (metis snd_conv)+

lemma clear_preserves:
  assumes "get_path ([''shards''] @ [sid, ''depleted'']) (document s) = Some (VBool True)"
  shows "get_path ([''shards''] @ [sid, ''depleted''])
           (document (snd (clearOldConsumers props' dynamo dp t now u s))) = Some (VBool True)"
proof -
  have "get_path ([''shards''] @ [sid, ''depleted''])
      (document (snd (send_update dynamo (clearOldConsumers_request old v u) s)))
      = Some (VBool True)" for old v
    by (rule send_update_preserves [OF assms])
       (auto simp: clearOldConsumers_request_def overlap_def)
  then show ?thesis
    using assms snd_clear [of props' dynamo dp t now u s] by auto
qed

lemma snd_ensureAll_Cons:
  "snd (ensureAll props client shardsData ((k, st) # cs) i us s) =
   snd (ensureAll props client shardsData cs (Suc i) us
          (case map_of shardsData k of
             None \<Rightarrow> s
           | Some sd \<Rightarrow> snd (ensureShardStateExists props client k sd (us i) s)))"
  by (simp add: case_prod_beta split: option.splits sum.splits)

lemma ensureAll_preserves:
  "get_path (shardsPath props @ [sid, ''depleted'']) (document s) = Some (VBool True) \<Longrightarrow>
   get_path (shardsPath props @ [sid, ''depleted''])
     (document (snd (ensureAll props' dynamo shardsData cs i us s))) = Some (VBool True)"
proof (induction cs arbitrary: i s)
  case Nil
  then show ?case by simp
next
  case (Cons c cs)
  obtain k st where c: "c = (k, st)" by (cases c)
  have "get_path (shardsPath props @ [sid, ''depleted''])
      (document (case map_of shardsData k of
             None \<Rightarrow> s
           | Some sd \<Rightarrow> snd (ensureShardStateExists props' dynamo k sd (us i) s)))
      = Some (VBool True)"
    using Cons.prems by (auto split: option.splits intro: ensure_preserves)
  from Cons.IH [OF this] show ?case
    unfolding c snd_ensureAll_Cons .
qed

lemma depleted_request_safe:
  "\<forall>a \<in> set (actions (markShardAsDepleted_request props' P cs us)).
     \<not> overlap (action_path a) (shardsPath props @ [sid, ''depleted'']) \<or>
     a = Set (shardsPath props @ [sid, ''depleted'']) (VBool True) \<or>
     (prefix (action_path a) (shardsPath props @ [sid, ''depleted'']) \<and>
      condition (markShardAsDepleted_request props' P cs us) =
        Some (AttributeNotExists (action_path a)))"
  by (auto simp: markShardAsDepleted_request_def shardsPath_def overlap_def)

lemma snd_depleted:
  "snd (markShardAsDepleted props client shardsData P us s) = s \<or>
   (\<exists>cs. snd (markShardAsDepleted props client shardsData P us s) =
      snd (ensureAll props client shardsData cs 0 us s)) \<or>
   (\<exists>cs. snd (markShardAsDepleted props client shardsData P us s) =
      snd (send_update client (markShardAsDepleted_request props P cs us)
             (snd (ensureAll props client shardsData cs 0 us s))))"
  unfolding markShardAsDepleted_def Let_def
  by (auto split: sum.splits prod.splits) (metis snd_conv ensureAll.simps(1))+

lemma depleted_preserves:
  assumes "get_path (shardsPath props @ [sid, ''depleted'']) (document s) = Some (VBool True)"
  shows "get_path (shardsPath props @ [sid, ''depleted''])
           (document (snd (markShardAsDepleted props' dynamo shardsData P us s)))
         = Some (VBool True)"
proof -
  let ?p = "shardsPath props @ [sid, ''depleted'']"
  have fin: "get_path ?p (document (snd (send_update dynamo
        (markShardAsDepleted_request props' P cs us)
        (snd (ensureAll props' dynamo shardsData cs 0 us s))))) = Some (VBool True)" for cs
    by (rule send_update_preserves [OF ensureAll_preserves [OF assms] depleted_request_safe])
  have ens: "get_path ?p (document (snd (ensureAll props' dynamo shardsData cs 0 us s)))
      = Some (VBool True)" for cs
    by (rule ensureAll_preserves [OF assms])
  from snd_depleted [of props' dynamo shardsData P us s] show ?thesis
    using assms fin ens by (elim disjE exE) simp_all
qed

lemma run_op_preserves:
  assumes "get_path (shardsPath props @ [sid, ''depleted'']) (document s) = Some (VBool True)"
    and "\<not> isStandalone props \<or> \<not> isClearOldConsumers op"
  shows "get_path (shardsPath props @ [sid, ''depleted''])
           (document (run_op props' dynamo op s)) = Some (VBool True)"
proof (cases op)
  case (ClearOldConsumers dp t n u)
  with assms(2) have sp: "shardsPath props = [''shards'']"
    by (simp add: shardsPath_def)
  show ?thesis
    using clear_preserves [of sid s props' dp t n u] assms(1)
    by (simp add: ClearOldConsumers sp)
qed (simp_all add: assms(1) ensure_preserves lock_preserves release_preserves
      checkpoint_preserves depleted_preserves register_preserves)

lemma ensure_existing:
  "shardSlot props sid (document s) \<noteq> None \<Longrightarrow>
   document (snd (ensureShardStateExists props dynamo sid sd uuid s)) = document s"
  by (simp add: snd_ensure send_update_def update_item_def ensureShardStateExists_request_def
      shardSlot_def overlap_def)

lemma removed_stays:
  "apply_actions as d = Some d' \<Longrightarrow>
   \<forall>a \<in> set as. a = Remove q \<or> \<not> overlap (action_path a) q \<Longrightarrow>
   get_path q d = None \<or> Remove q \<in> set as \<Longrightarrow> get_path q d' = None"
proof (induction as arbitrary: d)
  case Nil
  then show ?case by simp
next
  case (Cons a as)
  from Cons.prems(1) obtain d1 where
    d1: "apply_action a d = Some d1" "apply_actions as d1 = Some d'"
    by (auto split: option.splits)
  have "get_path q d1 = None \<or> Remove q \<in> set as"
  proof (cases "a = Remove q")
    case True
    then show ?thesis using d1(1) by (simp add: get_remove_path)
  next
    case False
    with Cons.prems(2) have no: "\<not> overlap (action_path a) q" by simp
    have "get_path q d1 = get_path q d"
      using d1(1) no
      by (cases a) (auto simp: overlap_def dest: set_path_frame remove_path_frame)
    then show ?thesis using Cons.prems(3) False by auto
  qed
  from Cons.IH [OF d1(2) _ this] Cons.prems(2) show ?case by simp
qed

lemma clear_keeps:
  assumes dep: "get_path ([''consumers'', X, ''shards''] @ [sid, ''depleted'']) (document s)
      = Some (VBool True)"
    and kept: "get_path [''consumers'', X]
      (document (snd (clearOldConsumers props' dynamo dp t now u s))) \<noteq> None"
  shows "get_path ([''consumers'', X, ''shards''] @ [sid, ''depleted''])
           (document (snd (clearOldConsumers props' dynamo dp t now u s))) = Some (VBool True)"
proof -
  let ?p = "[''consumers'', X, ''shards''] @ [sid, ''depleted'']"
  let ?r = "snd (clearOldConsumers props' dynamo dp t now u s)"
  from snd_clear [of props' dynamo dp t now u s]
  consider "?r = s"
    | old v where "?r = snd (send_update dynamo (clearOldConsumers_request old v u) s)"
    by blast
  then show ?thesis
  proof cases
    case 1
    then show ?thesis using dep by simp
  next
    case (2 old v)
    let ?req = "clearOldConsumers_request old v u"
    show ?thesis
    proof (cases "X \<in> set old")
      case False
      have "get_path ?p (document (snd (send_update dynamo ?req s))) = Some (VBool True)"
        by (rule send_update_preserves [OF dep])
           (use False in \<open>auto simp: clearOldConsumers_request_def overlap_def\<close>)
      then show ?thesis by (simp add: 2)
    next
      case True
      show ?thesis
      proof (cases "update_item ?req (document s)")
        case (Inl e)
        then show ?thesis using dep by (simp add: 2 send_update_def)
      next
        case (Inr d')
        then have app: "apply_actions (actions ?req) (document s) = Some d'"
          by (auto simp: update_item_def split: if_splits option.splits)
        have "get_path [''consumers'', X] d' = None"
          by (rule removed_stays [OF app])
             (use True in \<open>auto simp: clearOldConsumers_request_def overlap_def\<close>)
        then have "get_path [''consumers'', X] (document ?r) = None"
          using Inr by (simp add: 2 send_update_def)
        with kept show ?thesis by simp
      qed
    qed
  qed
qed

lemma run_op_keeps:
  assumes dep: "get_path (shardsPath props @ [sid, ''depleted'']) (document s)
      = Some (VBool True)"
    and kept: "isStandalone props \<longrightarrow>
      get_path [''consumers'', consumerId props] (document (run_op props' dynamo op s)) \<noteq> None"
  shows "get_path (shardsPath props @ [sid, ''depleted''])
           (document (run_op props' dynamo op s)) = Some (VBool True)"
proof (cases "isStandalone props \<and> isClearOldConsumers op")
  case False
  then show ?thesis by (intro run_op_preserves [OF dep]) simp
next
  case True
  then obtain dp t n u where op: "op = ClearOldConsumers dp t n u"
    by (cases op) auto
  have sp: "shardsPath props = [''consumers'', consumerId props, ''shards'']"
    using True by (simp add: shardsPath_def)
  show ?thesis
    using clear_keeps [of "consumerId props" sid s props' dp t n u] dep kept True
    by (simp add: op sp)
qed

lemma depleted_consumer_present:
  "isStandalone props \<Longrightarrow>
   get_path (shardsPath props @ [sid, ''depleted'']) d = Some x \<Longrightarrow>
   get_path [''consumers'', consumerId props] d \<noteq> None"
  by (rule get_path_prefix [of _ "shardsPath props @ [sid, ''depleted'']" _ x])
     (simp_all add: shardsPath_def)

lemma run_ops_keep:
  "get_path (shardsPath props @ [sid, ''depleted'']) (document s) = Some (VBool True) \<Longrightarrow>
   \<not> isStandalone props \<or> keepsConsumer (consumerId props) dynamo ops s \<Longrightarrow>
   get_path (shardsPath props @ [sid, ''depleted'']) (document (run_ops dynamo ops s))
     = Some (VBool True)"
proof (induction ops arbitrary: s)
  case Nil
  then show ?case by simp
next
  case (Cons a ops)
  obtain props' op where a: "a = (props', op)" by (cases a)
  have kept: "isStandalone props \<longrightarrow>
      get_path [''consumers'', consumerId props] (document (run_op props' dynamo op s)) \<noteq> None"
    using Cons.prems depleted_consumer_present [of props sid "document s" "VBool True"]
    by (auto simp: a)
  have step: "get_path (shardsPath props @ [sid, ''depleted''])
      (document (run_op props' dynamo op s)) = Some (VBool True)"
    by (rule run_op_keeps [OF Cons.prems(1) kept])
  have "\<not> isStandalone props \<or>
      keepsConsumer (consumerId props) dynamo ops (run_op props' dynamo op s)"
    using Cons.prems(2) by (auto simp: a)
  from Cons.IH [OF step this] show ?case by (simp add: a)
qed

text \<open>
  Claim C3, as amended. Once the \<open>depleted\<close> attribute of a shard slot is \<open>true\<close>, it is
  still \<open>true\<close> after any run of State Store operations (\<open>ensureShardStateExists\<close>,
  \<open>lockShardLease\<close>, \<open>releaseShardLease\<close>, \<open>storeShardCheckpoint\<close>,
  \<open>markShardAsDepleted\<close>, \<open>registerConsumer\<close>, \<open>clearOldConsumers\<close>) issued by any
  instances, provided the slot is that of an instance in auto-assignment mode or, for the
  slot of a standalone instance, no step of the run removes the record of that instance's
  consumer (the slot is part of that record). In particular \<open>ensureShardStateExists\<close> on that
  slot leaves the document as it is: its write is conditioned on the slot being absent.
\<close>

theorem depletion_terminal:
  "slotField props sid ''depleted'' (document s) = Some (VBool True) \<Longrightarrow>
   \<not> isStandalone props \<or> keepsConsumer (consumerId props) dynamo ops s \<Longrightarrow>
   slotField props sid ''depleted'' (document (run_ops dynamo ops s)) = Some (VBool True) \<and>
   (\<forall>sd uuid. document (snd (ensureShardStateExists props dynamo sid sd uuid s)) = document s)"
proof -
  assume dep: "slotField props sid ''depleted'' (document s) = Some (VBool True)"
    and mode: "\<not> isStandalone props \<or> keepsConsumer (consumerId props) dynamo ops s"
  have run: "get_path (shardsPath props @ [sid, ''depleted''])
      (document (run_ops dynamo ops s)) = Some (VBool True)"
    using dep mode by (intro run_ops_keep) (simp_all add: slotField_def)
  have "shardSlot props sid (document s) \<noteq> None"
    using dep by (auto simp: slotField_shardSlot split: option.splits)
  then have "\<forall>sd uuid. document (snd (ensureShardStateExists props dynamo sid sd uuid s)) =
      document s"
    by (simp add: ensure_existing)
  with run show ?thesis
    by (simp add: slotField_def)
qed


lemmas store_defs =
  slotField_def shardsPath_def markShardAsDepleted_def getStreamState_def childrenOf_def
  markShardAsDepleted_request_def send_update_def update_item_def overlap_def
  clearOldConsumers_def clearOldConsumers_request_def isOld_def timeClip_def
  registerConsumer_def
  registerConsumer_request_def heartbeat_request_def ensureShardStateExists_def
  ensureShardStateExists_request_def Let_def

text \<open>
  Claim C3 as stated fails for the slot of a standalone instance, which lives inside that
  consumer's record: \<open>markShardAsDepleted\<close> sets \<open>depleted\<close>, a peer's \<open>clearOldConsumers\<close>
  removes the stale consumer record and the slot with it, and after \<open>registerConsumer\<close>
  the next \<open>ensureShardStateExists\<close> writes the slot anew with \<open>depleted = false\<close>.
\<close>

theorem depletion_cleared_standalone:
  "slotField xProps ''shardId-0'' ''depleted''
     (document (run_ops dynamo
        [(xProps, MarkShardAsDepleted [] ''shardId-0'' demoUuids)] standaloneStore))
     = Some (VBool True) \<and>
   slotField xProps ''shardId-0'' ''depleted''
     (document (run_ops dynamo
        [(xProps, MarkShardAsDepleted [] ''shardId-0'' demoUuids),
         (yProps, ClearOldConsumers demoParse 60000 120000 ''d2''),
         (xProps, RegisterConsumer 130000 0),
         (xProps, EnsureShardStateExists ''shardId-0'' rootShard ''v2'')] standaloneStore))
     = Some (VBool False)"
  by (simp add: store_defs xProps_def yProps_def standaloneStore_def standaloneItem_def
      rootShard_def demoUuids_def)


theorem depletion_terminal_witness:
  "slotField xProps ''shardId-0'' ''depleted'' (document standaloneDepleted) = Some (VBool True) \<and>
   isStandalone xProps \<and>
   keepsConsumer ''X'' dynamo sparingOps standaloneDepleted \<and>
   get_path [''consumers'', ''Y''] (document standaloneDepleted) \<noteq> None \<and>
   get_path [''consumers'', ''Y''] (document (run_ops dynamo sparingOps standaloneDepleted))
     = None \<and>
   slotField xProps ''shardId-0'' ''depleted''
     (document (run_ops dynamo sparingOps standaloneDepleted)) = Some (VBool True) \<and>
   slotField demoProps ''shardId-0'' ''depleted'' (document depletedStore) = Some (VBool True) \<and>
   \<not> isStandalone demoProps \<and>
   slotField demoProps ''shardId-0'' ''depleted'' (document (run_ops dynamo demoOps depletedStore))
     = Some (VBool True)"
proof -
  have h1: "slotField xProps ''shardId-0'' ''depleted'' (document standaloneDepleted) =
      Some (VBool True)"
    by (simp add: standaloneDepleted_def store_defs xProps_def standaloneStore_def
        standaloneItem_def demoUuids_def)
  have k: "keepsConsumer ''X'' dynamo sparingOps standaloneDepleted"
    by (simp add: sparingOps_def standaloneDepleted_def store_defs xProps_def yProps_def
        standaloneStore_def standaloneItem_def rootShard_def demoUuids_def)
  have y: "get_path [''consumers'', ''Y''] (document standaloneDepleted) \<noteq> None \<and>
     get_path [''consumers'', ''Y''] (document (run_ops dynamo sparingOps standaloneDepleted))
       = None"
    by (simp add: sparingOps_def standaloneDepleted_def store_defs xProps_def yProps_def
        standaloneStore_def standaloneItem_def rootShard_def demoUuids_def)
  have h2: "\<not> isStandalone xProps \<or>
      keepsConsumer (consumerId xProps) dynamo sparingOps standaloneDepleted"
    using k by (simp add: xProps_def)
  have g1: "slotField demoProps ''shardId-0'' ''depleted'' (document depletedStore) =
      Some (VBool True)"
    by (simp add: store_defs depletedStore_def demoProps_def demoStore_def demoDocument_def
        demoItem_def demoShardsMap_def demoParentRecord_def demoUuids_def)
  have g2: "\<not> isStandalone demoProps \<or>
      keepsConsumer (consumerId demoProps) dynamo demoOps depletedStore"
    by (simp add: demoProps_def)
  show ?thesis
    using depletion_terminal [OF h1 h2] depletion_terminal [OF g1 g2] h1 g1 k y
    by (simp add: xProps_def demoProps_def)
qed


section \<open>lockShardLease: mutual exclusion\<close>

lemma action_avoids:
  assumes "get_path p d \<noteq> Some y" "apply_action a d = Some d'"
    and "\<not> overlap (action_path a) p \<or>
       (prefix (action_path a) p \<and>
        (case a of Remove q \<Rightarrow> True
         | Set q x \<Rightarrow> get_path (drop (length q) p) x \<noteq> Some y))"
  shows "get_path p d' \<noteq> Some y"
proof (cases a)
  case (Set q x)
  show ?thesis
  proof (cases "overlap q p")
    case False
    then show ?thesis
      using assms(1,2) Set set_path_frame [of q x d d' p] by (simp add: overlap_def)
  next
    case True
    with assms(3) Set have pre: "prefix q p" "get_path (drop (length q) p) x \<noteq> Some y"
      by auto
    then show ?thesis
      using assms(2) Set get_set_prefix [of q x d d' p] by simp
  qed
next
  case (Remove q)
  show ?thesis
  proof (cases "overlap q p")
    case False
    then show ?thesis
      using assms(1,2) Remove remove_path_frame [of q d d' p] by (simp add: overlap_def)
  next
    case True
    with assms(3) Remove have "prefix q p" by auto
    then show ?thesis
      using assms(2) Remove get_remove_prefix [of q d d' p] by simp
  qed
qed

lemma actions_avoid:
  "get_path p d \<noteq> Some y \<Longrightarrow> apply_actions as d = Some d' \<Longrightarrow>
   \<forall>a \<in> set as. \<not> overlap (action_path a) p \<or>
       (prefix (action_path a) p \<and>
        (case a of Remove q \<Rightarrow> True
         | Set q x \<Rightarrow> get_path (drop (length q) p) x \<noteq> Some y)) \<Longrightarrow>
   get_path p d' \<noteq> Some y"
proof (induction as arbitrary: d)
  case Nil
  then show ?case by simp
next
  case (Cons a as)
  from Cons.prems(2) obtain d1 where
    d1: "apply_action a d = Some d1" "apply_actions as d1 = Some d'"
    by (auto split: option.splits)
  have "get_path p d1 \<noteq> Some y"
    using Cons.prems(1) d1(1) Cons.prems(3) by (intro action_avoids [of p d y a d1]) auto
  then show ?case
    using Cons.IH [OF _ d1(2)] Cons.prems(3) by simp
qed

lemma send_update_avoids:
  assumes "get_path p (document s) \<noteq> Some y"
    and "\<forall>a \<in> set (actions req). \<not> overlap (action_path a) p \<or>
       (prefix (action_path a) p \<and>
        (case a of Remove q \<Rightarrow> True
         | Set q x \<Rightarrow> get_path (drop (length q) p) x \<noteq> Some y))"
  shows "get_path p (document (snd (send_update dynamo req s))) \<noteq> Some y"
proof (cases "update_item req (document s)")
  case (Inl e)
  then show ?thesis using assms(1) by (simp add: send_update_def)
next
  case (Inr d')
  then have "apply_actions (actions req) (document s) = Some d'"
    by (auto simp: update_item_def split: if_splits option.splits)
  from actions_avoid [OF assms(1) this assms(2)] show ?thesis
    using Inr by (simp add: send_update_def)
qed


lemma ensure_avoids:
  assumes "get_path (shardsPath props @ [sid, ''version'']) (document s) \<noteq> Some (VStr v)"
    and "u \<noteq> v"
  shows "get_path (shardsPath props @ [sid, ''version''])
           (document (snd (ensureShardStateExists props' dynamo c sd u s))) \<noteq> Some (VStr v)"
  unfolding snd_ensure
  by (rule send_update_avoids [OF assms(1)])
     (use assms(2) in \<open>auto simp: ensureShardStateExists_request_def shardsPath_def overlap_def\<close>)

lemma lock_avoids:
  assumes "get_path (shardsPath props @ [sid, ''version'']) (document s) \<noteq> Some (VStr v)"
    and "u \<noteq> v"
  shows "get_path (shardsPath props @ [sid, ''version''])
           (document (snd (lockShardLease props' dynamo c lt w now u s))) \<noteq> Some (VStr v)"
proof -
  have "get_path (shardsPath props @ [sid, ''version''])
      (document (snd (send_update dynamo
         (lockShardLease_request props' c (VTime (now + lt)) w u) s))) \<noteq> Some (VStr v)"
    by (rule send_update_avoids [OF assms(1)])
       (use assms(2) in \<open>auto simp: lockShardLease_request_def shardsPath_def overlap_def\<close>)
  then show ?thesis
    using assms(1) snd_lock [of props' dynamo c lt w now u s] by auto
qed

lemma release_avoids:
  assumes "get_path (shardsPath props @ [sid, ''version'']) (document s) \<noteq> Some (VStr v)"
    and "rv \<noteq> v"
  shows "get_path (shardsPath props @ [sid, ''version''])
           (document (snd (releaseShardLease props' dynamo c w rv s))) \<noteq> Some (VStr v)"
  unfolding snd_release
  by (rule send_update_avoids [OF assms(1)])
     (use assms(2) in \<open>auto simp: releaseShardLease_request_def shardsPath_def overlap_def\<close>)

lemma checkpoint_avoids:
  assumes "get_path (shardsPath props @ [sid, ''version'']) (document s) \<noteq> Some (VStr v)"
    and "u \<noteq> v"
  shows "get_path (shardsPath props @ [sid, ''version''])
           (document (snd (storeShardCheckpoint props' dynamo c cp u s))) \<noteq> Some (VStr v)"
  unfolding storeShardCheckpoint_def
  by (rule send_update_avoids [OF assms(1)])
     (use assms(2) in \<open>auto simp: storeShardCheckpoint_request_def shardsPath_def overlap_def\<close>)

lemma register_avoids:
  assumes "get_path (shardsPath props @ [sid, ''version'']) (document s) \<noteq> Some (VStr v)"
  shows "get_path (shardsPath props @ [sid, ''version''])
           (document (snd (registerConsumer props' dynamo now st s))) \<noteq> Some (VStr v)"
proof -
  let ?p = "shardsPath props @ [sid, ''version'']"
  let ?s1 = "snd (send_update dynamo (registerConsumer_request props' now st) s)"
  have 1: "get_path ?p (document ?s1) \<noteq> Some (VStr v)"
    by (rule send_update_avoids [OF assms])
       (auto simp: registerConsumer_request_def shardsPath_def overlap_def)
  have 2: "get_path ?p (document (snd (send_update dynamo (heartbeat_request props' now) ?s1)))
      \<noteq> Some (VStr v)"
    by (rule send_update_avoids [OF 1])
       (auto simp: heartbeat_request_def shardsPath_def overlap_def)
  show ?thesis
    using 1 2 by (auto simp: registerConsumer_def split: prod.splits sum.splits)
qed

lemma clear_avoids:
  assumes "get_path (shardsPath props @ [sid, ''version'']) (document s) \<noteq> Some (VStr v)"
  shows "get_path (shardsPath props @ [sid, ''version''])
           (document (snd (clearOldConsumers props' dynamo dp t now u s))) \<noteq> Some (VStr v)"
proof -
  have "get_path (shardsPath props @ [sid, ''version''])
      (document (snd (send_update dynamo (clearOldConsumers_request old w u) s)))
      \<noteq> Some (VStr v)" for old w
    by (rule send_update_avoids [OF assms])
       (auto simp: clearOldConsumers_request_def shardsPath_def overlap_def)
  then show ?thesis
    using assms snd_clear [of props' dynamo dp t now u s] by auto
qed

lemma ensureAll_avoids:
  "get_path (shardsPath props @ [sid, ''version'']) (document s) \<noteq> Some (VStr v) \<Longrightarrow>
   \<forall>i. us i \<noteq> v \<Longrightarrow>
   get_path (shardsPath props @ [sid, ''version''])
     (document (snd (ensureAll props' dynamo shardsData cs i us s))) \<noteq> Some (VStr v)"
proof (induction cs arbitrary: i s)
  case Nil
  then show ?case by simp
next
  case (Cons c cs)
  obtain k st where c: "c = (k, st)" by (cases c)
  have "get_path (shardsPath props @ [sid, ''version''])
      (document (case map_of shardsData k of
             None \<Rightarrow> s
           | Some sd \<Rightarrow> snd (ensureShardStateExists props' dynamo k sd (us i) s)))
      \<noteq> Some (VStr v)"
  proof (cases "map_of shardsData k")
    case None
    then show ?thesis using Cons.prems(1) by simp
  next
    case (Some sd)
    have "us i \<noteq> v" using Cons.prems(2) by simp
    from ensure_avoids [OF Cons.prems(1) this] show ?thesis
      by (simp add: Some)
  qed
  from Cons.IH [OF this Cons.prems(2)] show ?case
    unfolding c snd_ensureAll_Cons .
qed

lemma depleted_request_avoids:
  assumes "\<forall>i. us i \<noteq> v"
  shows "\<forall>a \<in> set (actions (markShardAsDepleted_request props' P cs us)).
     \<not> overlap (action_path a) (shardsPath props @ [sid, ''version'']) \<or>
       (prefix (action_path a) (shardsPath props @ [sid, ''version'']) \<and>
        (case a of Remove q \<Rightarrow> True
         | Set q x \<Rightarrow>
             get_path (drop (length q) (shardsPath props @ [sid, ''version''])) x
               \<noteq> Some (VStr v)))"
  using assms by (auto simp: markShardAsDepleted_request_def shardsPath_def overlap_def)

lemma depleted_avoids:
  assumes "get_path (shardsPath props @ [sid, ''version'']) (document s) \<noteq> Some (VStr v)"
    and "\<forall>i. us i \<noteq> v"
  shows "get_path (shardsPath props @ [sid, ''version''])
           (document (snd (markShardAsDepleted props' dynamo shardsData P us s)))
         \<noteq> Some (VStr v)"
proof -
  let ?p = "shardsPath props @ [sid, ''version'']"
  have ens: "get_path ?p (document (snd (ensureAll props' dynamo shardsData cs 0 us s)))
      \<noteq> Some (VStr v)" for cs
    by (rule ensureAll_avoids [OF assms])
  have fin: "get_path ?p (document (snd (send_update dynamo
        (markShardAsDepleted_request props' P cs us)
        (snd (ensureAll props' dynamo shardsData cs 0 us s))))) \<noteq> Some (VStr v)" for cs
    by (rule send_update_avoids [OF ens depleted_request_avoids [OF assms(2)]])
  from snd_depleted [of props' dynamo shardsData P us s] show ?thesis
    using assms(1) fin ens by (elim disjE exE) simp_all
qed

lemma run_op_avoids:
  assumes "get_path (shardsPath props @ [sid, ''version'']) (document s) \<noteq> Some (VStr v)"
    and "avoids v op"
  shows "get_path (shardsPath props @ [sid, ''version''])
           (document (run_op props' dynamo op s)) \<noteq> Some (VStr v)"
  using assms
  by (cases op)
     (simp_all add: ensure_avoids lock_avoids release_avoids checkpoint_avoids
        depleted_avoids register_avoids clear_avoids)

lemma run_ops_avoid:
  "get_path (shardsPath props @ [sid, ''version'']) (document s) \<noteq> Some (VStr v) \<Longrightarrow>
   \<forall>(q, op) \<in> set ops. avoids v op \<Longrightarrow>
   get_path (shardsPath props @ [sid, ''version''])
     (document (run_ops dynamo ops s)) \<noteq> Some (VStr v)"
proof (induction ops arbitrary: s)
  case Nil
  then show ?case by simp
next
  case (Cons a ops)
  obtain q op where a: "a = (q, op)" by (cases a)
  have "get_path (shardsPath props @ [sid, ''version''])
      (document (run_op q dynamo op s)) \<noteq> Some (VStr v)"
    using Cons.prems a by (intro run_op_avoids) auto
  from Cons.IH [OF this] Cons.prems(2) show ?case
    by (simp add: a)
qed

text \<open>
  Claim C1. Whenever now plus the lease term is a valid time value, \<open>lockShardLease\<close>
  against the reference client returns \<open>true\<close> exactly when the version stored in the shard
  slot equals the expected version. On success the slot's \<open>leaseOwner\<close> is the consumer's
  id, its \<open>leaseExpiration\<close> is now plus the lease term, its \<open>version\<close> is the generated
  one and every other attribute of the slot is as before. When the condition fails the
  result is \<open>false\<close> and the document is unchanged. With any client, an update error whose
  code is not \<open>ConditionalCheckFailedException\<close> is returned to the caller; so is the
  \<open>RangeError\<close> raised, before any update is sent, when now plus the lease term is not a
  valid time value. Of two attempts on the same slot with the same expected version, at
  most one returns \<open>true\<close>, whatever State Store operations any instances run between the
  two, provided the versions generated by the first attempt and by those operations differ
  from the expected one (they are fresh).
\<close>

theorem lockShardLease_compare_and_set:
  "(\<bar>now + lt\<bar> \<le> 8640000000000000 \<longrightarrow>
      (fst (lockShardLease props dynamo sid lt v now uuid s) = Inr True \<longleftrightarrow>
         slotField props sid ''version'' (document s) = Some (VStr v))
      \<and> (slotField props sid ''version'' (document s) = Some (VStr v) \<longrightarrow>
           slotField props sid ''leaseOwner''
             (document (snd (lockShardLease props dynamo sid lt v now uuid s))) =
               Some (VStr (consumerId props)) \<and>
           slotField props sid ''leaseExpiration''
             (document (snd (lockShardLease props dynamo sid lt v now uuid s))) =
               Some (VTime (now + lt)) \<and>
           slotField props sid ''version''
             (document (snd (lockShardLease props dynamo sid lt v now uuid s))) =
               Some (VStr uuid) \<and>
           (\<forall>f. f \<notin> {''leaseOwner'', ''leaseExpiration'', ''version''} \<longrightarrow>
              slotField props sid f
                (document (snd (lockShardLease props dynamo sid lt v now uuid s))) =
              slotField props sid f (document s)))
      \<and> (slotField props sid ''version'' (document s) \<noteq> Some (VStr v) \<longrightarrow>
           lockShardLease props dynamo sid lt v now uuid s =
             (Inr False,
              s\<lparr>sent := sent s @
                   [lockShardLease_request props sid (VTime (now + lt)) v uuid]\<rparr>))
      \<and> (client_update c (lockShardLease_request props sid (VTime (now + lt)) v uuid)
            (document s) = Inl e
           \<and> code e \<noteq> Some ''ConditionalCheckFailedException'' \<longrightarrow>
           lockShardLease props c sid lt v now uuid s =
             (Inl e,
              s\<lparr>sent := sent s @
                   [lockShardLease_request props sid (VTime (now + lt)) v uuid]\<rparr>)))
   \<and> (\<not> \<bar>now + lt\<bar> \<le> 8640000000000000 \<longrightarrow>
        lockShardLease props c sid lt v now uuid s = (Inl RangeError, s))
   \<and> (uuid \<noteq> v \<and> (\<forall>(q, op) \<in> set ops. avoids v op) \<and>
        shardsPath props' = shardsPath props \<longrightarrow>
        \<not> (fst (lockShardLease props dynamo sid lt v now uuid s) = Inr True \<and>
           fst (lockShardLease props' dynamo sid lt' v now' uuid'
                  (run_ops dynamo ops
                     (snd (lockShardLease props dynamo sid lt v now uuid s)))) = Inr True))"
proof -
  let ?r = "lockShardLease props dynamo sid lt v now uuid s"
  let ?req = "lockShardLease_request props sid (VTime (now + lt)) v uuid"
  let ?ok = "slotField props sid ''version'' (document s) = Some (VStr v)"
  let ?range = "\<bar>now + lt\<bar> \<le> 8640000000000000"
  have fail: "?r = (Inr False, s\<lparr>sent := sent s @ [?req]\<rparr>)" if "\<not> ?ok" ?range
    using that by (rule lock_failure)
  have succ: "fst ?r = Inr True \<and>
      slotField props sid ''leaseOwner'' (document (snd ?r)) = Some (VStr (consumerId props)) \<and>
      slotField props sid ''leaseExpiration'' (document (snd ?r)) = Some (VTime (now + lt)) \<and>
      slotField props sid ''version'' (document (snd ?r)) = Some (VStr uuid) \<and>
      (\<forall>f. f \<notin> {''leaseOwner'', ''leaseExpiration'', ''version''} \<longrightarrow>
         slotField props sid f (document (snd ?r)) = slotField props sid f (document s))"
    if ok: ?ok and range: ?range
  proof -
    from lock_success [OF ok range, of uuid] obtain m d' where
      m: "shardSlot props sid (document s) = Some (VMap m)"
      and r: "?r = (Inr True, \<lparr> document = d', sent = sent s @ [?req] \<rparr>)"
      and d': "shardSlot props sid d' =
         Some (VMap (AList.update ''version'' (VStr uuid)
           (AList.update ''leaseExpiration'' (VTime (now + lt))
             (AList.update ''leaseOwner'' (VStr (consumerId props)) m))))"
      by blast
    show ?thesis
      by (simp add: r slotField_after [OF d'] slotField_after [OF m] AList.update_conv')
  qed
  have iff: "fst ?r = Inr True \<longleftrightarrow> ?ok" if range: ?range
    using succ [OF _ range] fail [OF _ range] by (cases ?ok) auto
  have rethrow: "lockShardLease props c sid lt v now uuid s =
          (Inl e, s\<lparr>sent := sent s @ [?req]\<rparr>)"
    if "client_update c ?req (document s) = Inl e"
       "code e \<noteq> Some ''ConditionalCheckFailedException''" ?range
    using that by (simp add: lock_in_range send_update_def)
  have invalid: "lockShardLease props c sid lt v now uuid s = (Inl RangeError, s)"
    if "\<not> ?range"
    using that by (rule lock_out_of_range)
  have excl: "\<not> (fst ?r = Inr True \<and>
           fst (lockShardLease props' dynamo sid lt' v now' uuid'
                  (run_ops dynamo ops (snd ?r))) = Inr True)"
    if fresh: "uuid \<noteq> v" and ops: "\<forall>(q, op) \<in> set ops. avoids v op"
      and same: "shardsPath props' = shardsPath props"
  proof (cases "?ok \<and> ?range")
    case True
    have "get_path (shardsPath props' @ [sid, ''version'']) (document (snd ?r))
        = Some (VStr uuid)"
      using succ True same by (simp add: slotField_def)
    then have "get_path (shardsPath props' @ [sid, ''version'']) (document (snd ?r))
        \<noteq> Some (VStr v)"
      using fresh by simp
    from run_ops_avoid [OF this ops]
    have "slotField props' sid ''version'' (document (run_ops dynamo ops (snd ?r)))
        \<noteq> Some (VStr v)"
      by (simp add: slotField_def)
    from lock_not_true [OF this] show ?thesis by simp
  next
    case False
    have "fst ?r \<noteq> Inr True"
    proof (cases ?range)
      case True
      with False iff show ?thesis by simp
    next
      case out: False
      from lock_out_of_range [OF out] show ?thesis by simp
    qed
    then show ?thesis by simp
  qed
  show ?thesis
    using iff succ fail excl rethrow invalid by blast
qed

theorem lockShardLease_compare_and_set_witness:
  "slotField demoProps ''shardId-0'' ''version'' (document demoStore) = Some (VStr ''v1'') \<and>
   fst (lockShardLease demoProps dynamo ''shardId-0'' 300000 ''v1'' 1000 ''v2'' demoStore)
     = Inr True \<and>
   slotField demoProps ''shardId-0'' ''leaseOwner''
     (document (snd (lockShardLease demoProps dynamo ''shardId-0'' 300000 ''v1'' 1000 ''v2''
        demoStore))) = Some (VStr ''A'') \<and>
   slotField demoProps ''shardId-0'' ''leaseExpiration''
     (document (snd (lockShardLease demoProps dynamo ''shardId-0'' 300000 ''v1'' 1000 ''v2''
        demoStore))) = Some (VTime 301000) \<and>
   fst (lockShardLease (demoProps\<lparr>consumerId := ''B''\<rparr>) dynamo ''shardId-0'' 300000 ''v1'' 1001
          ''v3''
          (run_ops dynamo [(demoProps, ReleaseShardLease ''shardId-0'' ''v2'' ''v9'')]
             (snd (lockShardLease demoProps dynamo ''shardId-0'' 300000 ''v1'' 1000 ''v2''
                demoStore)))) \<noteq> Inr True \<and>
   fst (lockShardLease demoProps dynamo ''shardId-0'' 300000 ''v0'' 1000 ''v2'' demoStore)
     = Inr False \<and>
   fst (lockShardLease demoProps (failingClient (ServiceError ''NetworkingError''))
          ''shardId-0'' 300000 ''v1'' 1000 ''v2'' demoStore)
     = Inl (ServiceError ''NetworkingError'') \<and>
   lockShardLease demoProps dynamo ''shardId-0'' 8640000000000000 ''v1'' 1000 ''v2'' demoStore
     = (Inl RangeError, demoStore)"
proof -
  have v: "slotField demoProps ''shardId-0'' ''version'' (document demoStore) = Some (VStr ''v1'')"
    by (simp add: slotField_def shardsPath_def demoProps_def demoStore_def demoDocument_def
        demoItem_def demoShardsMap_def demoParentRecord_def)
  have p: "shardsPath (demoProps\<lparr>consumerId := ''B''\<rparr>) = shardsPath demoProps"
    by (simp add: shardsPath_def demoProps_def)
  have f: "client_update (failingClient (ServiceError ''NetworkingError''))
       (lockShardLease_request demoProps ''shardId-0'' (VTime (1000 + 300000)) ''v1'' ''v2'')
       (document demoStore) = Inl (ServiceError ''NetworkingError'')"
    by (simp add: failingClient_def)
  show ?thesis
    using v p f
      lockShardLease_compare_and_set [where props = demoProps and sid = "''shardId-0''"
        and lt = 300000 and v = "''v1''" and now = 1000 and uuid = "''v2''" and s = demoStore
        and ops = "[(demoProps, ReleaseShardLease ''shardId-0'' ''v2'' ''v9'')]"
        and props' = "demoProps\<lparr>consumerId := ''B''\<rparr>" and lt' = 300000 and now' = 1001
        and uuid' = "''v3''"
        and c = "failingClient (ServiceError ''NetworkingError'')"
        and e = "ServiceError ''NetworkingError''"]
      lockShardLease_compare_and_set [where props = demoProps and sid = "''shardId-0''"
        and lt = 300000 and v = "''v0''" and now = 1000 and uuid = "''v2''" and s = demoStore
        and ops = "[]" and props' = demoProps and lt' = 300000 and now' = 1001
        and uuid' = "''v3''" and c = dynamo and e = TypeError]
      lockShardLease_compare_and_set [where props = demoProps and sid = "''shardId-0''"
        and lt = 8640000000000000 and v = "''v1''" and now = 1000 and uuid = "''v2''"
        and s = demoStore and ops = "[]" and props' = demoProps and lt' = 300000
        and now' = 1001 and uuid' = "''v3''" and c = dynamo and e = TypeError]
    by (simp add: demoProps_def)
qed


section \<open>markShardAsDepleted\<close>

lemma overlap_slots [simp]: "overlap (sp @ [c]) (sp @ [k]) = (c = k)"
  by (auto simp: overlap_def)

lemma overlap_fields [simp]: "overlap (sp @ [c, f]) (sp @ [k, g]) = (c = k \<and> f = g)"
  by (auto simp: overlap_def)

lemma slot_field_sets:
  assumes "\<forall>(c, f, x) \<in> set ts. \<exists>r. get_path (sp @ [c]) d = Some (VMap r)"
  shows "\<exists>d'. apply_actions (map (\<lambda>(c, f, x). Set (sp @ [c, f]) x) ts) d = Some d' \<and>
     (\<forall>c r. get_path (sp @ [c]) d = Some (VMap r) \<longrightarrow>
        get_path (sp @ [c]) d' =
          Some (VMap (fold (\<lambda>(c', f, x) r. if c' = c then AList.update f x r else r) ts r))) \<and>
     (\<forall>p. (\<forall>(c, f, x) \<in> set ts. \<not> overlap (sp @ [c]) p) \<longrightarrow> get_path p d' = get_path p d)"
  using assms
proof (induction ts arbitrary: d)
  case Nil
  then show ?case by simp
next
  case (Cons t ts)
  obtain c0 f0 x0 where t: "t = (c0, f0, x0)" by (cases t)
  from Cons.prems obtain r0 where r0: "get_path (sp @ [c0]) d = Some (VMap r0)"
    by (auto simp: t)
  from set_path_field [OF r0, of f0 x0] obtain d1 where
    d1: "set_path (sp @ [c0, f0]) x0 d = Some d1"
        "get_path (sp @ [c0]) d1 = Some (VMap (AList.update f0 x0 r0))"
    by auto
  have frame1: "get_path p d1 = get_path p d" if "\<not> overlap (sp @ [c0]) p" for p
  proof -
    have "\<not> overlap ((sp @ [c0]) @ [f0]) p" using that by (rule overlap_extend)
    then show ?thesis
      using set_path_frame [OF d1(1), of p] by (simp add: overlap_def)
  qed
  have slots1: "get_path (sp @ [c]) d1 =
      (if c = c0 then Some (VMap (AList.update f0 x0 r0)) else get_path (sp @ [c]) d)" for c
    using d1(2) frame1 [of "sp @ [c]"] by simp
  have "\<forall>(c, f, x) \<in> set ts. \<exists>r. get_path (sp @ [c]) d1 = Some (VMap r)"
    using Cons.prems by (auto simp: slots1)
  from Cons.IH [OF this] obtain d' where
    d': "apply_actions (map (\<lambda>(c, f, x). Set (sp @ [c, f]) x) ts) d1 = Some d'"
        "\<forall>c r. get_path (sp @ [c]) d1 = Some (VMap r) \<longrightarrow>
           get_path (sp @ [c]) d' =
             Some (VMap (fold (\<lambda>(c', f, x) r. if c' = c then AList.update f x r else r) ts r))"
        "\<forall>p. (\<forall>(c, f, x) \<in> set ts. \<not> overlap (sp @ [c]) p) \<longrightarrow> get_path p d' = get_path p d1"
    by blast
  have 1: "apply_actions (map (\<lambda>(c, f, x). Set (sp @ [c, f]) x) (t # ts)) d = Some d'"
    using d1(1) d'(1) by (simp add: t)
  have 2: "get_path (sp @ [c]) d' =
      Some (VMap (fold (\<lambda>(c', f, x) r. if c' = c then AList.update f x r else r) (t # ts) r))"
    if "get_path (sp @ [c]) d = Some (VMap r)" for c r
    using that d'(2) [rule_format, of c] r0 by (auto simp: slots1 t)
  have 3: "get_path p d' = get_path p d"
    if "\<forall>(c, f, x) \<in> set (t # ts). \<not> overlap (sp @ [c]) p" for p
    using that d'(3) frame1 [of p] by (auto simp: t)
  show ?case
    using 1 2 3 by blast
qed

lemma no_overlaps_fields:
  "distinct (map (\<lambda>(c, f, x). (c, f)) ts) \<Longrightarrow>
   no_overlaps (map (\<lambda>(c, f, x). sp @ [c, f]) ts)"
  by (induction ts) (auto simp: image_iff)

lemma childEdits_Cons:
  "childEdits us n i ((c, st) # cs) =
     (c, ''checkpoint'', VStr st) # (c, ''version'', VStr (us (n + 1 + i))) #
       childEdits us n (Suc i) cs"
  by (simp add: childEdits_def)

lemma childEdits_Nil [simp]: "childEdits us n i [] = []"
  by (simp add: childEdits_def)

lemma childEdits_slots:
  "(c, f, x) \<in> set (childEdits us n i cs) \<Longrightarrow>
   c \<in> fst ` set cs \<and> (f = ''checkpoint'' \<or> f = ''version'')"
proof (induction cs arbitrary: i)
  case Nil
  then show ?case by simp
next
  case (Cons a cs)
  obtain c0 st0 where a: "a = (c0, st0)" by (cases a)
  from Cons.prems consider "c = c0 \<and> (f = ''checkpoint'' \<or> f = ''version'')"
    | "(c, f, x) \<in> set (childEdits us n (Suc i) cs)"
    by (auto simp: a childEdits_Cons)
  then show ?case
  proof cases
    case 1
    then show ?thesis by (simp add: a)
  next
    case 2
    from Cons.IH [OF this] show ?thesis by simp
  qed
qed

lemma child_actions:
  "concat (map (\<lambda>(index, (c, start)).
                  [Set (sp @ [c, ''checkpoint'']) (VStr start),
                   Set (sp @ [c, ''version'']) (VStr (us (n + 1 + index)))])
             (enumerate i cs)) =
   map (\<lambda>(c, f, x). Set (sp @ [c, f]) x) (childEdits us n i cs)"
proof (induction cs arbitrary: i)
  case Nil
  then show ?case by simp
next
  case (Cons a cs)
  obtain c0 st0 where a: "a = (c0, st0)" by (cases a)
  show ?case
    using Cons.IH [of "Suc i"] by (simp add: a childEdits_Cons)
qed

lemma depleted_actions:
  "actions (markShardAsDepleted_request props P cs us) =
   map (\<lambda>(c, f, x). Set (shardsPath props @ [c, f]) x) (depletionEdits P cs us)"
  using child_actions [of "shardsPath props" us "length cs" 0 cs]
  by (simp add: markShardAsDepleted_request_def depletionEdits_def)

lemma fold_child_other:
  "c \<notin> fst ` set cs \<Longrightarrow>
   fold (\<lambda>(c', f, x) r. if c' = c then AList.update f x r else r) (childEdits us n i cs) r = r"
  by (induction cs arbitrary: i) (auto simp: childEdits_Cons)

lemma fold_child_at:
  "distinct (map fst cs) \<Longrightarrow> j < length cs \<Longrightarrow> cs ! j = (c, st) \<Longrightarrow>
   fold (\<lambda>(c', f, x) r. if c' = c then AList.update f x r else r) (childEdits us n i cs) r =
     AList.update ''version'' (VStr (us (n + 1 + i + j)))
       (AList.update ''checkpoint'' (VStr st) r)"
proof (induction cs arbitrary: i j r)
  case Nil
  then show ?case by simp
next
  case (Cons a cs)
  obtain c0 st0 where a: "a = (c0, st0)" by (cases a)
  show ?case
  proof (cases j)
    case 0
    with Cons.prems have "c0 = c" "st0 = st" "c \<notin> fst ` set cs"
      by (auto simp: a)
    then show ?thesis
      by (simp add: a childEdits_Cons fold_child_other 0)
  next
    case (Suc j')
    with Cons.prems have j': "j' < length cs" "cs ! j' = (c, st)" "distinct (map fst cs)"
      by auto
    then have "c \<in> fst ` set cs"
      by (metis fst_conv image_eqI nth_mem)
    with Cons.prems(1) have "c0 \<noteq> c" by (auto simp: a)
    then show ?thesis
      using Cons.IH [OF j'(3) j'(1) j'(2), of "Suc i" r] by (simp add: a childEdits_Cons Suc)
  qed
qed

lemma distinct_childEdits:
  "distinct (map fst cs) \<Longrightarrow> distinct (map (\<lambda>(c, f, x). (c, f)) (childEdits us n i cs))"
proof (induction cs arbitrary: i)
  case Nil
  then show ?case by simp
next
  case (Cons a cs)
  obtain c0 st0 where a: "a = (c0, st0)" by (cases a)
  have "(c0, f) \<notin> (\<lambda>(c, f, x). (c, f)) ` set (childEdits us n (Suc i) cs)" for f
    using Cons.prems by (auto simp: a dest!: childEdits_slots)
  then show ?case
    using Cons by (simp add: a childEdits_Cons)
qed

lemma distinct_depletionEdits:
  "distinct (map fst cs) \<Longrightarrow> P \<notin> fst ` set cs \<Longrightarrow>
   distinct (map (\<lambda>(c, f, x). (c, f)) (depletionEdits P cs us))"
  by (auto simp: depletionEdits_def distinct_childEdits dest!: childEdits_slots)

lemma depletionEdits_slots:
  "(c, f, x) \<in> set (depletionEdits P cs us) \<Longrightarrow> c = P \<or> c \<in> fst ` set cs"
  by (auto simp: depletionEdits_def dest!: childEdits_slots)

lemma get_slot:
  "get_path sp d = Some (VMap sm) \<Longrightarrow> get_path (sp @ [c]) d = map_of sm c"
  by (simp add: get_path_append split: option.splits)

lemma store_sent_update: "s\<lparr>sent := x\<rparr> = \<lparr> document = document s, sent = x \<rparr>"
  by (cases s) simp

lemma store_surjective: "\<lparr> document = document s, sent = sent s \<rparr> = s"
  by (cases s) simp

lemma ensure_step:
  assumes sm: "get_path (shardsPath props) (document s) = Some (VMap sm)"
  shows "\<exists>d1. ensureShardStateExists props dynamo c \<lparr> parent = Some P, startingSequenceNumber = st \<rparr> u s =
           (Inr (), \<lparr> document = d1,
               sent = sent s @ [ensureShardStateExists_request props c
                                  \<lparr> parent = Some P, startingSequenceNumber = st \<rparr> u] \<rparr>) \<and>
         get_path (shardsPath props) d1 =
           Some (VMap (if map_of sm c = None then AList.update c (VMap (freshChild P u)) sm
                       else sm)) \<and>
         (\<forall>p. \<not> overlap (shardsPath props) p \<longrightarrow> get_path p d1 = get_path p (document s))"
proof (cases "map_of sm c")
  case None
  let ?req = "ensureShardStateExists_request props c
                \<lparr> parent = Some P, startingSequenceNumber = st \<rparr> u"
  from set_path_field [OF sm, of c "VMap (freshChild P u)"] obtain d1 where
    d1: "set_path (shardsPath props @ [c]) (VMap (freshChild P u)) (document s) = Some d1"
        "get_path (shardsPath props) d1 = Some (VMap (AList.update c (VMap (freshChild P u)) sm))"
    by blast
  have upd: "update_item ?req (document s) = Inr d1"
    using d1(1) None get_slot [OF sm, of c]
    by (simp add: update_item_def ensureShardStateExists_request_def freshChild_def)
  have frame: "get_path p d1 = get_path p (document s)" if "\<not> overlap (shardsPath props) p" for p
  proof -
    have "\<not> overlap (shardsPath props @ [c]) p" using that by (rule overlap_extend)
    then show ?thesis
      using set_path_frame [OF d1(1), of p] by (simp add: overlap_def)
  qed
  show ?thesis
    using upd d1(2) frame None
    by (simp add: ensureShardStateExists_def send_update_def)
next
  case (Some x)
  let ?req = "ensureShardStateExists_request props c
                \<lparr> parent = Some P, startingSequenceNumber = st \<rparr> u"
  have upd: "update_item ?req (document s) = Inl (ServiceError ''ConditionalCheckFailedException'')"
    using Some get_slot [OF sm, of c]
    by (simp add: update_item_def ensureShardStateExists_request_def)
  show ?thesis
    using upd sm Some
    by (intro exI [of _ "document s"])
       (simp add: ensureShardStateExists_def send_update_def store_sent_update)
qed

lemma ensureAll_auto:
  assumes "get_path (shardsPath props) (document s) = Some (VMap sm)"
    and "\<forall>(c, st) \<in> set cs.
           map_of shardsData c = Some \<lparr> parent = Some P, startingSequenceNumber = st \<rparr>"
    and "distinct (map fst cs)"
  shows "\<exists>d1 sm1. ensureAll props dynamo shardsData cs i us s =
           (Inr (), \<lparr> document = d1,
               sent = sent s @
                 map (\<lambda>(j, (c, st)). ensureShardStateExists_request props c
                        \<lparr> parent = Some P, startingSequenceNumber = st \<rparr> (us j))
                   (enumerate i cs) \<rparr>) \<and>
         get_path (shardsPath props) d1 = Some (VMap sm1) \<and>
         (\<forall>j c st. j < length cs \<and> cs ! j = (c, st) \<and> map_of sm c = None \<longrightarrow>
            map_of sm1 c = Some (VMap (freshChild P (us (i + j))))) \<and>
         (\<forall>k. map_of sm k \<noteq> None \<or> k \<notin> fst ` set cs \<longrightarrow> map_of sm1 k = map_of sm k) \<and>
         (\<forall>p. \<not> overlap (shardsPath props) p \<longrightarrow> get_path p d1 = get_path p (document s))"
  using assms
proof (induction cs arbitrary: i s sm)
  case Nil
  then show ?case
    by (intro exI [of _ "document s"] exI [of _ sm]) (simp add: store_surjective)
next
  case (Cons a cs)
  obtain c0 st0 where a: "a = (c0, st0)" by (cases a)
  let ?sd = "\<lparr> parent = Some P, startingSequenceNumber = st0 \<rparr>"
  let ?sm' = "if map_of sm c0 = None then AList.update c0 (VMap (freshChild P (us i))) sm else sm"
  have look: "map_of shardsData c0 = Some ?sd"
    using Cons.prems(2) by (simp add: a)
  from ensure_step [OF Cons.prems(1), of c0 P st0 "us i"] obtain d0 where
    d0: "ensureShardStateExists props dynamo c0 ?sd (us i) s =
           (Inr (), \<lparr> document = d0,
               sent = sent s @ [ensureShardStateExists_request props c0 ?sd (us i)] \<rparr>)"
        "get_path (shardsPath props) d0 = Some (VMap ?sm')"
        "\<forall>p. \<not> overlap (shardsPath props) p \<longrightarrow> get_path p d0 = get_path p (document s)"
    by blast
  let ?s0 = "\<lparr> document = d0,
               sent = sent s @ [ensureShardStateExists_request props c0 ?sd (us i)] \<rparr>"
  have sm0: "get_path (shardsPath props) (document ?s0) = Some (VMap ?sm')"
    using d0(2) by simp
  have rest: "\<forall>(c, st) \<in> set cs.
           map_of shardsData c = Some \<lparr> parent = Some P, startingSequenceNumber = st \<rparr>"
    "distinct (map fst cs)" "c0 \<notin> fst ` set cs"
    using Cons.prems(2,3) by (auto simp: a)
  from Cons.IH [OF sm0 rest(1,2), of "Suc i"] obtain d1 sm1 where
    ih: "ensureAll props dynamo shardsData cs (Suc i) us ?s0 =
           (Inr (), \<lparr> document = d1,
               sent = sent ?s0 @
                 map (\<lambda>(j, (c, st)). ensureShardStateExists_request props c
                        \<lparr> parent = Some P, startingSequenceNumber = st \<rparr> (us j))
                   (enumerate (Suc i) cs) \<rparr>)"
        "get_path (shardsPath props) d1 = Some (VMap sm1)"
        "\<forall>j c st. j < length cs \<and> cs ! j = (c, st) \<and> map_of ?sm' c = None \<longrightarrow>
            map_of sm1 c = Some (VMap (freshChild P (us (Suc i + j))))"
        "\<forall>k. map_of ?sm' k \<noteq> None \<or> k \<notin> fst ` set cs \<longrightarrow> map_of sm1 k = map_of ?sm' k"
        "\<forall>p. \<not> overlap (shardsPath props) p \<longrightarrow> get_path p d1 = get_path p (document ?s0)"
    by blast
  have run: "ensureAll props dynamo shardsData (a # cs) i us s =
           (Inr (), \<lparr> document = d1,
               sent = sent s @
                 map (\<lambda>(j, (c, st)). ensureShardStateExists_request props c
                        \<lparr> parent = Some P, startingSequenceNumber = st \<rparr> (us j))
                   (enumerate i (a # cs)) \<rparr>)"
    by (simp add: a look d0(1) ih(1))
  have fresh: "map_of sm1 c = Some (VMap (freshChild P (us (i + j))))"
    if "j < length (a # cs)" "(a # cs) ! j = (c, st)" "map_of sm c = None" for j c st
  proof (cases j)
    case 0
    with that have "c = c0" by (simp add: a)
    then have "map_of ?sm' c = Some (VMap (freshChild P (us i)))"
      using that(3) by (simp add: AList.update_conv')
    then show ?thesis
      using ih(4) [rule_format, of c] by (simp add: 0)
  next
    case (Suc j')
    with that have j': "j' < length cs" "cs ! j' = (c, st)" by auto
    then have "c \<in> fst ` set cs" by (metis fst_conv image_eqI nth_mem)
    with rest(3) have "c \<noteq> c0" by auto
    then have "map_of ?sm' c = None"
      using that(3) by (simp add: AList.update_conv')
    with ih(3) j' show ?thesis by (simp add: Suc)
  qed
  have keep: "map_of sm1 k = map_of sm k" if "map_of sm k \<noteq> None \<or> k \<notin> fst ` set (a # cs)" for k
  proof -
    have 1: "map_of ?sm' k = map_of sm k"
      using that by (auto simp: a AList.update_conv')
    have 2: "map_of ?sm' k \<noteq> None \<or> k \<notin> fst ` set cs"
      using that 1 by (auto simp: a)
    from ih(4) 2 have "map_of sm1 k = map_of ?sm' k" by blast
    with 1 show ?thesis by (simp only:)
  qed
  have frame: "\<forall>p. \<not> overlap (shardsPath props) p \<longrightarrow> get_path p d1 = get_path p (document s)"
    using ih(5) d0(3) by simp
  show ?case
    using run ih(2) fresh keep frame by blast
qed

lemma childrenOf_lookup:
  assumes "distinct (map fst shardsData)" "(c, st) \<in> set (childrenOf shardsData P)"
  shows "map_of shardsData c = Some \<lparr> parent = Some P, startingSequenceNumber = st \<rparr>"
proof -
  from assms(2) obtain sd where sd: "(c, sd) \<in> set shardsData" "parent sd = Some P"
    "st = startingSequenceNumber sd"
    by (auto simp: childrenOf_def)
  have "map_of shardsData c = Some sd"
    using assms(1) sd(1) by (rule map_of_is_SomeI)
  moreover have "sd = \<lparr> parent = Some P, startingSequenceNumber = st \<rparr>"
    using sd(2,3) by (cases sd) simp
  ultimately show ?thesis by simp
qed

lemma distinct_childrenOf:
  "distinct (map fst shardsData) \<Longrightarrow> distinct (map fst (childrenOf shardsData P))"
proof -
  assume d: "distinct (map fst shardsData)"
  have "map fst (childrenOf shardsData P) =
      map fst (filter (\<lambda>(c, sd). parent sd = Some P) shardsData)"
    by (simp add: childrenOf_def comp_def case_prod_beta)
  then show ?thesis
    using d by (simp add: distinct_map_filter)
qed

lemma depleted_update:
  assumes sm1: "get_path sp d1 = Some (VMap sm1)"
    and targets: "\<forall>(c, f, x) \<in> set (depletionEdits P cs us). \<exists>r. map_of sm1 c = Some (VMap r)"
    and dist: "distinct (map fst cs)" and self: "P \<notin> fst ` set cs"
  shows "\<exists>d'. apply_actions (map (\<lambda>(c, f, x). Set (sp @ [c, f]) x) (depletionEdits P cs us)) d1
            = Some d' \<and>
     no_overlaps (map (\<lambda>(c, f, x). sp @ [c, f]) (depletionEdits P cs us)) \<and>
     (\<forall>pm. map_of sm1 P = Some (VMap pm) \<longrightarrow>
        get_path (sp @ [P]) d' =
          Some (VMap (AList.update ''version'' (VStr (us (length cs)))
                  (AList.update ''depleted'' (VBool True) pm)))) \<and>
     (\<forall>j c st r. j < length cs \<and> cs ! j = (c, st) \<and> map_of sm1 c = Some (VMap r) \<longrightarrow>
        get_path (sp @ [c]) d' =
          Some (VMap (AList.update ''version'' (VStr (us (length cs + 1 + j)))
                  (AList.update ''checkpoint'' (VStr st) r)))) \<and>
     (\<forall>k. k \<noteq> P \<and> k \<notin> fst ` set cs \<longrightarrow> get_path (sp @ [k]) d' = map_of sm1 k) \<and>
     (\<forall>p. \<not> overlap sp p \<longrightarrow> get_path p d' = get_path p d1)"
proof -
  let ?g = "\<lambda>c. (\<lambda>(c', f, x) r. if c' = c then AList.update f x r else r)"
  have slots: "get_path (sp @ [c]) d1 = map_of sm1 c" for c
    using sm1 by (rule get_slot)
  have "\<forall>(c, f, x) \<in> set (depletionEdits P cs us). \<exists>r. get_path (sp @ [c]) d1 = Some (VMap r)"
    using targets by (simp add: slots)
  from slot_field_sets [OF this] obtain d' where
    d': "apply_actions (map (\<lambda>(c, f, x). Set (sp @ [c, f]) x) (depletionEdits P cs us)) d1
           = Some d'"
        "\<forall>c r. get_path (sp @ [c]) d1 = Some (VMap r) \<longrightarrow>
           get_path (sp @ [c]) d' = Some (VMap (fold (?g c) (depletionEdits P cs us) r))"
        "\<forall>p. (\<forall>(c, f, x) \<in> set (depletionEdits P cs us). \<not> overlap (sp @ [c]) p) \<longrightarrow>
           get_path p d' = get_path p d1"
    by blast
  have no: "no_overlaps (map (\<lambda>(c, f, x). sp @ [c, f]) (depletionEdits P cs us))"
    by (rule no_overlaps_fields [OF distinct_depletionEdits [OF dist self]])
  have fP: "fold (?g P) (depletionEdits P cs us) pm =
      AList.update ''version'' (VStr (us (length cs))) (AList.update ''depleted'' (VBool True) pm)"
    for pm
    using self by (simp add: depletionEdits_def fold_child_other)
  have fC: "fold (?g c) (depletionEdits P cs us) r =
      AList.update ''version'' (VStr (us (length cs + 1 + j)))
        (AList.update ''checkpoint'' (VStr st) r)"
    if "j < length cs" "cs ! j = (c, st)" for j c st r
  proof -
    have "c \<in> fst ` set cs" using that by (metis fst_conv image_eqI nth_mem)
    with self have "c \<noteq> P" by auto
    then show ?thesis
      using fold_child_at [OF dist that, of us "length cs" 0 r] by (simp add: depletionEdits_def)
  qed
  have 1: "\<forall>pm. map_of sm1 P = Some (VMap pm) \<longrightarrow>
        get_path (sp @ [P]) d' =
          Some (VMap (AList.update ''version'' (VStr (us (length cs)))
                  (AList.update ''depleted'' (VBool True) pm)))"
    using d'(2) by (simp add: slots fP)
  have 2: "\<forall>j c st r. j < length cs \<and> cs ! j = (c, st) \<and> map_of sm1 c = Some (VMap r) \<longrightarrow>
        get_path (sp @ [c]) d' =
          Some (VMap (AList.update ''version'' (VStr (us (length cs + 1 + j)))
                  (AList.update ''checkpoint'' (VStr st) r)))"
  proof (intro allI impI, elim conjE)
    fix j c st r
    assume j: "j < length cs" "cs ! j = (c, st)" and r: "map_of sm1 c = Some (VMap r)"
    from d'(2) r have "get_path (sp @ [c]) d' =
        Some (VMap (fold (?g c) (depletionEdits P cs us) r))"
      by (simp add: slots)
    then show "get_path (sp @ [c]) d' =
          Some (VMap (AList.update ''version'' (VStr (us (length cs + 1 + j)))
                  (AList.update ''checkpoint'' (VStr st) r)))"
      by (simp only: fC [OF j])
  qed
  have 3: "get_path (sp @ [k]) d' = map_of sm1 k" if "k \<noteq> P \<and> k \<notin> fst ` set cs" for k
  proof -
    have "\<forall>(c, f, x) \<in> set (depletionEdits P cs us). \<not> overlap (sp @ [c]) (sp @ [k])"
      using that by (auto dest!: depletionEdits_slots)
    with d'(3) show ?thesis by (simp add: slots)
  qed
  have 4: "get_path p d' = get_path p d1" if "\<not> overlap sp p" for p
  proof -
    have "\<not> overlap (sp @ [c]) p" for c using that by (rule overlap_extend)
    with d'(3) show ?thesis by auto
  qed
  show ?thesis
    using d'(1) no 1 2 3 4 by blast
qed

text \<open>
  Claim C2, as amended. For an instance in auto-assignment mode, on a document whose
  \<open>shards\<close> map holds the parent's record (the records of the children that exist being
  maps, the keys of \<open>shardsData\<close> distinct and the parent not its own child), let the
  children be the shards of \<open>shardsData\<close> whose parent is \<open>parentShardId\<close> when the parent's
  checkpoint is non-null and non-empty, and none otherwise. Then \<open>markShardAsDepleted\<close>
  succeeds; it sends one conditional update per child, which creates the child's record if
  it is absent, and then one single update, which sets the parent's \<open>depleted\<close> to \<open>true\<close>
  with a generated version and each child's \<open>checkpoint\<close> to the child's starting
  sequence number with a generated version. Every other attribute of these records, every
  other shard record and everything outside the \<open>shards\<close> map is as before; with a null
  checkpoint there are no children, so only the single update is sent and no child record
  is touched.
\<close>

theorem markShardAsDepleted_auto:
  assumes auto: "\<not> isStandalone props"
    and doc: "document s = VMap item" "map_of item ''shards'' = Some (VMap sm)"
    and par: "map_of sm P = Some (VMap pm)"
    and kids: "\<forall>(c, st) \<in> set (childrenOf shardsData P).
                 \<forall>x. map_of sm c = Some x \<longrightarrow> (\<exists>r. x = VMap r)"
    and dist: "distinct (map fst shardsData)"
    and self: "P \<notin> fst ` set (childrenOf shardsData P)"
  defines "cs \<equiv> (if val_truthy (map_of pm ''checkpoint'') then childrenOf shardsData P else [])"
  shows "\<exists>d'. markShardAsDepleted props dynamo shardsData P us s =
           (Inr (), \<lparr> document = d',
               sent = sent s @
                 map (\<lambda>(j, (c, st)). ensureShardStateExists_request props c
                        \<lparr> parent = Some P, startingSequenceNumber = st \<rparr> (us j))
                   (enumerate 0 cs) @
                 [markShardAsDepleted_request props P cs us] \<rparr>) \<and>
         shardSlot props P d' =
           Some (VMap (AList.update ''version'' (VStr (us (length cs)))
                   (AList.update ''depleted'' (VBool True) pm))) \<and>
         (\<forall>j c st. j < length cs \<and> cs ! j = (c, st) \<longrightarrow>
            shardSlot props c d' =
              Some (VMap (AList.update ''version'' (VStr (us (length cs + 1 + j)))
                      (AList.update ''checkpoint'' (VStr st)
                         (case map_of sm c of Some (VMap r) \<Rightarrow> r
                          | _ \<Rightarrow> freshChild P (us j)))))) \<and>
         (\<forall>k. k \<noteq> P \<and> k \<notin> fst ` set cs \<longrightarrow>
            shardSlot props k d' = shardSlot props k (document s)) \<and>
         (\<forall>p. \<not> overlap [''shards''] p \<longrightarrow> get_path p d' = get_path p (document s))"
proof -
  have sp: "shardsPath props = [''shards'']"
    using auto by (simp add: shardsPath_def)
  have sm: "get_path (shardsPath props) (document s) = Some (VMap sm)"
    by (simp add: sp doc)
  have cs_sub: "set cs \<subseteq> set (childrenOf shardsData P)"
    by (auto simp: cs_def)
  have look: "\<forall>(c, st) \<in> set cs.
      map_of shardsData c = Some \<lparr> parent = Some P, startingSequenceNumber = st \<rparr>"
    using cs_sub childrenOf_lookup [OF dist] by blast
  have dcs: "distinct (map fst cs)"
    using distinct_childrenOf [OF dist, of P] by (simp add: cs_def)
  have self': "P \<notin> fst ` set cs"
    using self cs_sub by auto
  have unfold: "markShardAsDepleted props dynamo shardsData P us s =
      (case ensureAll props dynamo shardsData cs 0 us s of
         (Inl err, s') \<Rightarrow> (Inl err, s')
       | (Inr u, s') \<Rightarrow>
           send_update dynamo (markShardAsDepleted_request props P cs us) s')"
    unfolding cs_def
    by (simp add: markShardAsDepleted_def getStreamState_def doc par Let_def)
  from ensureAll_auto [OF sm look dcs, of 0 us] obtain d1 sm1 where
    e: "ensureAll props dynamo shardsData cs 0 us s =
           (Inr (), \<lparr> document = d1,
               sent = sent s @
                 map (\<lambda>(j, (c, st)). ensureShardStateExists_request props c
                        \<lparr> parent = Some P, startingSequenceNumber = st \<rparr> (us j))
                   (enumerate 0 cs) \<rparr>)"
       "get_path (shardsPath props) d1 = Some (VMap sm1)"
       "\<forall>j c st. j < length cs \<and> cs ! j = (c, st) \<and> map_of sm c = None \<longrightarrow>
            map_of sm1 c = Some (VMap (freshChild P (us (0 + j))))"
       "\<forall>k. map_of sm k \<noteq> None \<or> k \<notin> fst ` set cs \<longrightarrow> map_of sm1 k = map_of sm k"
       "\<forall>p. \<not> overlap (shardsPath props) p \<longrightarrow> get_path p d1 = get_path p (document s)"
    by blast
  have parent1: "map_of sm1 P = Some (VMap pm)"
    using e(4) par by simp
  have child1: "map_of sm1 c =
      Some (VMap (case map_of sm c of Some (VMap r) \<Rightarrow> r | _ \<Rightarrow> freshChild P (us j)))"
    if j: "j < length cs" "cs ! j = (c, st)" for j c st
  proof (cases "map_of sm c")
    case None
    with e(3) j show ?thesis by simp
  next
    case (Some x)
    have "(c, st) \<in> set cs" using j by (metis nth_mem)
    with cs_sub kids Some obtain r where "x = VMap r" by blast
    with e(4) Some show ?thesis by simp
  qed
  have targets: "\<forall>(c, f, x) \<in> set (depletionEdits P cs us). \<exists>r. map_of sm1 c = Some (VMap r)"
  proof (intro ballI, clarify)
    fix c f x assume "(c, f, x) \<in> set (depletionEdits P cs us)"
    then consider "c = P" | "c \<in> fst ` set cs"
      using depletionEdits_slots by blast
    then show "\<exists>r. map_of sm1 c = Some (VMap r)"
    proof cases
      case 1
      then show ?thesis using parent1 by simp
    next
      case 2
      then obtain j st where "j < length cs" "cs ! j = (c, st)"
        by (metis fst_conv imageE in_set_conv_nth prod.collapse)
      from child1 [OF this] show ?thesis by blast
    qed
  qed
  from depleted_update [OF e(2) targets dcs self'] obtain d' where
    d': "apply_actions (map (\<lambda>(c, f, x). Set (shardsPath props @ [c, f]) x)
           (depletionEdits P cs us)) d1 = Some d'"
        "no_overlaps (map (\<lambda>(c, f, x). shardsPath props @ [c, f]) (depletionEdits P cs us))"
        "\<forall>pm. map_of sm1 P = Some (VMap pm) \<longrightarrow>
           get_path (shardsPath props @ [P]) d' =
             Some (VMap (AList.update ''version'' (VStr (us (length cs)))
                     (AList.update ''depleted'' (VBool True) pm)))"
        "\<forall>j c st r. j < length cs \<and> cs ! j = (c, st) \<and> map_of sm1 c = Some (VMap r) \<longrightarrow>
           get_path (shardsPath props @ [c]) d' =
             Some (VMap (AList.update ''version'' (VStr (us (length cs + 1 + j)))
                     (AList.update ''checkpoint'' (VStr st) r)))"
        "\<forall>k. k \<noteq> P \<and> k \<notin> fst ` set cs \<longrightarrow> get_path (shardsPath props @ [k]) d' = map_of sm1 k"
        "\<forall>p. \<not> overlap (shardsPath props) p \<longrightarrow> get_path p d' = get_path p d1"
    by blast
  have paths: "map action_path (actions (markShardAsDepleted_request props P cs us)) =
      map (\<lambda>(c, f, x). shardsPath props @ [c, f]) (depletionEdits P cs us)"
    by (simp add: depleted_actions comp_def case_prod_beta)
  have cnd: "condition (markShardAsDepleted_request props P cs us) = None"
    by (simp add: markShardAsDepleted_request_def)
  have no: "no_overlaps (map action_path (actions (markShardAsDepleted_request props P cs us)))"
    using d'(2) by (simp only: paths)
  have app: "apply_actions (actions (markShardAsDepleted_request props P cs us)) d1 = Some d'"
    using d'(1) by (simp only: depleted_actions)
  have upd: "update_item (markShardAsDepleted_request props P cs us) d1 = Inr d'"
    using no app cnd by (simp add: update_item_def)
  have res: "markShardAsDepleted props dynamo shardsData P us s =
           (Inr (), \<lparr> document = d',
               sent = sent s @
                 map (\<lambda>(j, (c, st)). ensureShardStateExists_request props c
                        \<lparr> parent = Some P, startingSequenceNumber = st \<rparr> (us j))
                   (enumerate 0 cs) @
                 [markShardAsDepleted_request props P cs us] \<rparr>)"
    by (simp add: unfold e(1) send_update_def upd)
  have 1: "shardSlot props P d' =
           Some (VMap (AList.update ''version'' (VStr (us (length cs)))
                   (AList.update ''depleted'' (VBool True) pm)))"
    using d'(3) parent1 by (simp add: shardSlot_def)
  have 2: "\<forall>j c st. j < length cs \<and> cs ! j = (c, st) \<longrightarrow>
            shardSlot props c d' =
              Some (VMap (AList.update ''version'' (VStr (us (length cs + 1 + j)))
                      (AList.update ''checkpoint'' (VStr st)
                         (case map_of sm c of Some (VMap r) \<Rightarrow> r
                          | _ \<Rightarrow> freshChild P (us j)))))"
  proof (intro allI impI, elim conjE)
    fix j c st assume j: "j < length cs" "cs ! j = (c, st)"
    from d'(4) j child1 [OF j]
    show "shardSlot props c d' =
              Some (VMap (AList.update ''version'' (VStr (us (length cs + 1 + j)))
                      (AList.update ''checkpoint'' (VStr st)
                         (case map_of sm c of Some (VMap r) \<Rightarrow> r
                          | _ \<Rightarrow> freshChild P (us j)))))"
      unfolding shardSlot_def by blast
  qed
  have 3: "\<forall>k. k \<noteq> P \<and> k \<notin> fst ` set cs \<longrightarrow>
            shardSlot props k d' = shardSlot props k (document s)"
    using d'(5) e(4) get_slot [OF sm] by (simp add: shardSlot_def)
  have 4: "\<forall>p. \<not> overlap [''shards''] p \<longrightarrow> get_path p d' = get_path p (document s)"
    using d'(6) e(5) by (simp add: sp)
  show ?thesis
    by (rule exI [of _ d'], rule conjI [OF res conjI [OF 1 conjI [OF 2 conjI [OF 3 4]]]])
qed

text \<open>
  Claim C2 as stated fails on the number of updates: with two children whose records are
  absent, three update requests are sent, and the first, applied on its own, leaves a
  document in which the child's record exists while the parent is not yet depleted.
\<close>

theorem markShardAsDepleted_not_single_update:
  "sent (snd (markShardAsDepleted demoProps dynamo demoShardsData ''shardId-0'' demoUuids
                demoStore)) =
     [ensureShardStateExists_request demoProps ''shardId-1''
        \<lparr> parent = Some ''shardId-0'', startingSequenceNumber = ''100'' \<rparr> (demoUuids 0),
      ensureShardStateExists_request demoProps ''shardId-2''
        \<lparr> parent = Some ''shardId-0'', startingSequenceNumber = ''200'' \<rparr> (demoUuids 1),
      markShardAsDepleted_request demoProps ''shardId-0''
        [(''shardId-1'', ''100''), (''shardId-2'', ''200'')] demoUuids] \<and>
   shardSlot demoProps ''shardId-1''
     (document (snd (send_update dynamo
        (ensureShardStateExists_request demoProps ''shardId-1''
           \<lparr> parent = Some ''shardId-0'', startingSequenceNumber = ''100'' \<rparr> (demoUuids 0))
        demoStore))) = Some (VMap (freshChild ''shardId-0'' (demoUuids 0))) \<and>
   slotField demoProps ''shardId-0'' ''depleted''
     (document (snd (send_update dynamo
        (ensureShardStateExists_request demoProps ''shardId-1''
           \<lparr> parent = Some ''shardId-0'', startingSequenceNumber = ''100'' \<rparr> (demoUuids 0))
        demoStore))) = Some (VBool False)"
  by (simp add: store_defs shardSlot_def demoProps_def demoStore_def demoDocument_def
      demoItem_def demoShardsMap_def demoParentRecord_def demoShardsData_def demoUuids_def freshChild_def)

text \<open>
  In standalone mode \<open>markShardAsDepleted\<close> still reads the parent from the top-level
  \<open>shards\<close> map, which a standalone instance never writes: the call ends in a
  \<open>TypeError\<close> before any update is sent.
\<close>

lemma markShardAsDepleted_standalone_TypeError:
  "markShardAsDepleted xProps dynamo demoShardsData ''shardId-0'' demoUuids pureStandaloneStore =
     (Inl TypeError, pureStandaloneStore)"
  by (simp add: store_defs pureStandaloneStore_def)


theorem markShardAsDepleted_auto_witness:
  "fst (markShardAsDepleted demoProps dynamo demoShardsData ''shardId-0'' demoUuids demoStore)
     = Inr () \<and>
   slotField demoProps ''shardId-0'' ''depleted''
     (document (snd (markShardAsDepleted demoProps dynamo demoShardsData ''shardId-0'' demoUuids
        demoStore))) = Some (VBool True) \<and>
   slotField demoProps ''shardId-1'' ''checkpoint''
     (document (snd (markShardAsDepleted demoProps dynamo demoShardsData ''shardId-0'' demoUuids
        demoStore))) = Some (VStr ''100'') \<and>
   slotField demoProps ''shardId-2'' ''checkpoint''
     (document (snd (markShardAsDepleted demoProps dynamo demoShardsData ''shardId-0'' demoUuids
        demoStore))) = Some (VStr ''200'')"
proof -
  have kids: "childrenOf demoShardsData ''shardId-0'' =
      [(''shardId-1'', ''100''), (''shardId-2'', ''200'')]"
    by (simp add: childrenOf_def demoShardsData_def)
  have h1: "\<not> isStandalone demoProps"
    by (simp add: demoProps_def)
  have h2: "document demoStore = VMap demoItem"
    by (simp add: demoStore_def demoDocument_def)
  have h3: "map_of demoItem ''shards'' = Some (VMap demoShardsMap)"
    by (simp add: demoItem_def)
  have h4: "map_of demoShardsMap ''shardId-0'' = Some (VMap demoParentRecord)"
    by (simp add: demoShardsMap_def)
  have h5: "\<forall>(c, st) \<in> set (childrenOf demoShardsData ''shardId-0'').
      \<forall>x. map_of demoShardsMap c = Some x \<longrightarrow> (\<exists>r. x = VMap r)"
    by (simp add: kids demoShardsMap_def)
  have h6: "distinct (map fst demoShardsData)"
    by (simp add: demoShardsData_def)
  have h7: "''shardId-0'' \<notin> fst ` set (childrenOf demoShardsData ''shardId-0'')"
    by (simp add: kids)
  have t: "val_truthy (map_of demoParentRecord ''checkpoint'')"
    by (simp add: demoParentRecord_def)
  have cs: "(if val_truthy (map_of demoParentRecord ''checkpoint'')
             then childrenOf demoShardsData ''shardId-0'' else []) = [(''shardId-1'', ''100''), (''shardId-2'', ''200'')]"
    by (simp add: kids t)
  note th = markShardAsDepleted_auto [OF h1 h2 h3 h4 h5 h6 h7, of demoUuids, unfolded cs]
  from th obtain d' where
    r: "markShardAsDepleted demoProps dynamo demoShardsData ''shardId-0'' demoUuids demoStore =
           (Inr (), \<lparr> document = d',
               sent = sent demoStore @
                 map (\<lambda>(j, (c, st)). ensureShardStateExists_request demoProps c
                        \<lparr> parent = Some ''shardId-0'', startingSequenceNumber = st \<rparr>
                        (demoUuids j))
                   (enumerate 0 [(''shardId-1'', ''100''), (''shardId-2'', ''200'')]) @
                 [markShardAsDepleted_request demoProps ''shardId-0'' [(''shardId-1'', ''100''), (''shardId-2'', ''200'')] demoUuids] \<rparr>)"
    and p: "shardSlot demoProps ''shardId-0'' d' =
           Some (VMap (AList.update ''version'' (VStr (demoUuids (length [(''shardId-1'', ''100''), (''shardId-2'', ''200'')])))
                   (AList.update ''depleted'' (VBool True) demoParentRecord)))"
    and c: "\<forall>j c st. j < length [(''shardId-1'', ''100''), (''shardId-2'', ''200'')] \<and> [(''shardId-1'', ''100''), (''shardId-2'', ''200'')] ! j = (c, st) \<longrightarrow>
            shardSlot demoProps c d' =
              Some (VMap (AList.update ''version'' (VStr (demoUuids (length [(''shardId-1'', ''100''), (''shardId-2'', ''200'')] + 1 + j)))
                      (AList.update ''checkpoint'' (VStr st)
                         (case map_of demoShardsMap c of Some (VMap r) \<Rightarrow> r
                          | _ \<Rightarrow> freshChild ''shardId-0'' (demoUuids j)))))"
    apply (elim exE conjE)
    apply (rule that)
      apply assumption
     apply assumption
    apply assumption
    done
  from c [rule_format, of 0 "''shardId-1''" "''100''"]
  have c1: "slotField demoProps ''shardId-1'' ''checkpoint'' d' = Some (VStr ''100'')"
    by (simp add: slotField_shardSlot AList.update_conv')
  from c [rule_format, of 1 "''shardId-2''" "''200''"]
  have c2: "slotField demoProps ''shardId-2'' ''checkpoint'' d' = Some (VStr ''200'')"
    by (simp add: slotField_shardSlot AList.update_conv')
  from p have p1: "slotField demoProps ''shardId-0'' ''depleted'' d' = Some (VBool True)"
    by (simp add: slotField_shardSlot AList.update_conv')
  show ?thesis
    using p1 c1 c2 by (simp add: r)
qed

section \<open>Polling: a fetch without records\<close>

lemmas poll_defs =
  pollBody_def fetchRecords_def storeStashed_def acquireIterator_def noRecords_def deliver_def
  setCheckpoint_def element_def Let_def

text \<open>
  Claim C5 as stated fails when \<open>markShardAsDepleted\<close> rejects: the shards are listed and
  \<open>markShardAsDepleted\<close> is called, but the error is pushed to the stream and
  \<open>stopConsumer\<close> is not called.
\<close>

theorem pollForRecords_depletion_rejected:
  "pollForRecords demoConsumerProps [rejectingIo] (demoState\<lparr>iterator := Defined ''it-2''\<rparr>) =
     Some (demoState\<lparr>iterator := Undefined\<rparr>,
           [CallGetRecords 100 ''it-2'', CallListShards,
            CallMarkShardAsDepleted (getStreamShards demoListing) ''shardId-0'',
            CallPushToStream
              (Inl (ServiceError ''ProvisionedThroughputExceededException''))])"
  by (simp add: poll_defs rejectingIo_def demoIo_def demoState_def demoConsumerProps_def
      demoGetRecords_def)

text \<open>
  Claim C5, as amended. In a poll whose lease has not expired and whose \<open>getRecords\<close> call
  returns no records: when the next iterator of the response is \<open>undefined\<close>, the consumer
  lists the shards and calls \<open>markShardAsDepleted\<close> with the lineage map and its own shard
  id; when both calls resolve it then calls \<open>stopConsumer\<close> and sets no timer, and when
  one of them rejects it neither stops nor sets a timer: it pushes the error to the stream
  or, if the code of the error is \<open>ExpiredIteratorException\<close>, drops the iterator and
  polls again. When the next iterator is
  not \<open>undefined\<close> it sets one timer, with delay \<open>noRecordsPollDelay\<close> if
  \<open>MillisBehindLatest\<close> is at most 0 (or \<open>null\<close>) and with delay 0 otherwise.
\<close>

theorem pollForRecords_no_records:
  "\<not> dateNow io > leaseExpiration st \<Longrightarrow>
   fetchRecords props io st = (Inr data, st1, evs1) \<Longrightarrow>
   Records data = [] \<Longrightarrow>
   (NextShardIterator data = Undefined \<and> listShardsResult io = Inr Shards \<and>
      depletedResult io (getStreamShards Shards) = None \<longrightarrow>
      pollForRecords props (io # ios) st =
        Some (st1, evs1 @ [CallListShards,
                           CallMarkShardAsDepleted (getStreamShards Shards) (shardId props),
                           CallStopConsumer (shardId props)]))
   \<and> (NextShardIterator data = Undefined \<and> listShardsResult io = Inl e \<longrightarrow>
      pollForRecords props (io # ios) st =
        (if code e = Some ''ExpiredIteratorException''
         then (case pollForRecords props ios (st1\<lparr>iterator := Null\<rparr>) of
                 None \<Rightarrow> None
               | Some (st2, evs2) \<Rightarrow> Some (st2, (evs1 @ [CallListShards]) @ evs2))
         else Some (st1, evs1 @ [CallListShards, CallPushToStream (Inl e)])))
   \<and> (NextShardIterator data = Undefined \<and> listShardsResult io = Inr Shards \<and>
      depletedResult io (getStreamShards Shards) = Some e \<longrightarrow>
      pollForRecords props (io # ios) st =
        (if code e = Some ''ExpiredIteratorException''
         then (case pollForRecords props ios (st1\<lparr>iterator := Null\<rparr>) of
                 None \<Rightarrow> None
               | Some (st2, evs2) \<Rightarrow>
                   Some (st2,
                     (evs1 @ [CallListShards,
                        CallMarkShardAsDepleted (getStreamShards Shards) (shardId props)])
                     @ evs2))
         else Some (st1, evs1 @ [CallListShards,
                            CallMarkShardAsDepleted (getStreamShards Shards) (shardId props),
                            CallPushToStream (Inl e)])))
   \<and> (NextShardIterator data \<noteq> Undefined \<longrightarrow>
        pollForRecords props (io # ios) st =
          Some (st1\<lparr>timeoutId :=
                   Some (case MillisBehindLatest data of
                           Defined ms \<Rightarrow> if ms \<le> 0 then noRecordsPollDelay props else 0
                         | Null \<Rightarrow> noRecordsPollDelay props
                         | Undefined \<Rightarrow> 0)\<rparr>,
                evs1 @ [CallSetTimeout
                   (case MillisBehindLatest data of
                      Defined ms \<Rightarrow> if ms \<le> 0 then noRecordsPollDelay props else 0
                    | Null \<Rightarrow> noRecordsPollDelay props
                    | Undefined \<Rightarrow> 0)]))"
  by (cases "MillisBehindLatest data")
     (auto simp: pollBody_def noRecords_def Let_def)

theorem pollForRecords_no_records_witness:
  "pollForRecords demoConsumerProps [demoIo] (demoState\<lparr>iterator := Defined ''it-1''\<rparr>) =
     Some (demoState\<lparr>iterator := Defined ''it-2'', timeoutId := Some 1000\<rparr>,
           [CallGetRecords 100 ''it-1'', CallSetTimeout 1000]) \<and>
   pollForRecords demoConsumerProps [demoIo] (demoState\<lparr>iterator := Defined ''it-2''\<rparr>) =
     Some (demoState\<lparr>iterator := Undefined\<rparr>,
           [CallGetRecords 100 ''it-2'', CallListShards,
            CallMarkShardAsDepleted (getStreamShards demoListing) ''shardId-0'',
            CallStopConsumer ''shardId-0'']) \<and>
   pollForRecords demoConsumerProps [nullIo] demoState =
     Some (demoState\<lparr>iterator := Null, timeoutId := Some 1000\<rparr>,
           [CallGetRecords 100 ''it-0'', CallSetTimeout 1000])"
proof -
  have l: "\<not> dateNow demoIo > leaseExpiration (demoState\<lparr>iterator := Defined it\<rparr>)" for it
    by (simp add: demoIo_def demoState_def)
  have l': "\<not> dateNow nullIo > leaseExpiration demoState"
    by (simp add: nullIo_def demoIo_def demoState_def)
  have f1: "fetchRecords demoConsumerProps demoIo (demoState\<lparr>iterator := Defined ''it-1''\<rparr>) =
      (Inr \<lparr> MillisBehindLatest = Defined 0, NextShardIterator = Defined ''it-2'',
             Records = [] \<rparr>,
       demoState\<lparr>iterator := Defined ''it-2''\<rparr>, [] @ [CallGetRecords 100 ''it-1''])"
    by (simp add: fetchRecords_def storeStashed_def acquireIterator_def demoIo_def demoState_def
        demoConsumerProps_def demoGetRecords_def)
  have f2: "fetchRecords demoConsumerProps demoIo (demoState\<lparr>iterator := Defined ''it-2''\<rparr>) =
      (Inr \<lparr> MillisBehindLatest = Defined 0, NextShardIterator = Undefined, Records = [] \<rparr>,
       demoState\<lparr>iterator := Undefined\<rparr>, [] @ [CallGetRecords 100 ''it-2''])"
    by (simp add: fetchRecords_def storeStashed_def acquireIterator_def demoIo_def demoState_def
        demoConsumerProps_def demoGetRecords_def)
  have f3: "fetchRecords demoConsumerProps nullIo demoState =
      (Inr \<lparr> MillisBehindLatest = Null, NextShardIterator = Null, Records = [] \<rparr>,
       demoState\<lparr>iterator := Null\<rparr>, [] @ [CallGetRecords 100 ''it-0''])"
    by (simp add: fetchRecords_def storeStashed_def acquireIterator_def nullIo_def demoIo_def
        demoState_def demoConsumerProps_def)
  have s: "listShardsResult demoIo = Inr demoListing"
    "depletedResult demoIo (getStreamShards demoListing) = None"
    by (simp_all add: demoIo_def)
  show ?thesis
    using pollForRecords_no_records [OF l f1, where Shards = demoListing and ios = "[]"]
      pollForRecords_no_records [OF l f2, where Shards = demoListing and ios = "[]"]
      pollForRecords_no_records [OF l' f3, where Shards = demoListing and ios = "[]"] s
    by (simp add: demoConsumerProps_def)
qed

section \<open>Polling: paused polling with automatic checkpoints\<close>

text \<open>
  Claim C6 at a batch of two aggregated records, with paused polling, automatic checkpoints
  and deaggregation on: no timer is set and nothing is stored, but the sequence number
  stashed is that of the delivered record at index \<open>Records.length - 1\<close>, here 50, while the
  last delivered record has sequence number 51.
\<close>

theorem paused_stash_not_last_record:
  "pollForRecords aggregatedProps [aggregatedIo] demoState =
     Some (demoState\<lparr> iterator := Defined ''it-1'', seqNumToCheckpoint := Some ''50'' \<rparr>,
           [CallGetRecords 100 ''it-0'',
            CallPushToStream (Inr
              \<lparr> millisBehindLatest = Defined 500,
                records = [\<lparr> sequenceNumber = ''50'', userData = ''a'' \<rparr>,
                           \<lparr> sequenceNumber = ''50'', userData = ''b'' \<rparr>,
                           \<lparr> sequenceNumber = ''51'', userData = ''c'' \<rparr>,
                           \<lparr> sequenceNumber = ''51'', userData = ''d'' \<rparr>],
                pushedShardId = ''shardId-0'', pushedStreamName = ''s'',
                withSetCheckpoint = False, withContinuePolling = True \<rparr>)])"
  by (simp add: poll_defs aggregatedProps_def aggregatedIo_def demoIo_def demoState_def
      demoConsumerProps_def aggregatedGetRecords_def demoDeaggregate_def demoDecoder_def)

text \<open>
  When the decoded list is as long as the fetched one (as it is without deaggregation), the
  stash is the sequence number of the last record, nothing is stored and no timer is set;
  and a poll that starts with a stash, its lease not expired, stores it before any other
  call.
\<close>

lemma decodeAll_length: "decodeAll f rs = Inr us \<Longrightarrow> length us = length rs"
  by (induction rs arbitrary: us) (auto split: sum.splits)

lemma paused_auto_poll:
  assumes "usePausedPolling props" "useAutoCheckpoints props"
    and "\<not> dateNow io > leaseExpiration st"
    and "fetchRecords props io st = (Inr data, st1, evs1)"
    and "Records data \<noteq> []"
    and "(if shouldDeaggregate props then deaggregate io (Records data)
          else Inr (Records data)) = Inr coll"
    and "decodeAll (recordsDecoder io) coll = Inr recs"
    and "length coll = length (Records data)"
  shows "pollForRecords props (io # ios) st =
     Some (st1\<lparr>seqNumToCheckpoint := Some (sequenceNumber (last recs))\<rparr>,
           evs1 @ [CallPushToStream (Inr
              \<lparr> millisBehindLatest = MillisBehindLatest data, records = recs,
                pushedShardId = shardId props, pushedStreamName = streamName props,
                withSetCheckpoint = False, withContinuePolling = True \<rparr>)])"
proof -
  have len: "length recs = length (Records data)"
    using decodeAll_length [OF assms(7)] assms(8) by simp
  with assms(5) have ne: "recs \<noteq> []" by auto
  have "element recs (length recs - 1) = Some (last recs)"
    using ne by (simp add: element_def last_conv_nth)
  then have el: "element recs (length (Records data) - 1) = Some (last recs)"
    by (simp only: len)
  have "deliver props io data st1 =
      (Inr (), st1\<lparr>seqNumToCheckpoint := Some (sequenceNumber (last recs))\<rparr>,
       [CallPushToStream (Inr
              \<lparr> millisBehindLatest = MillisBehindLatest data, records = recs,
                pushedShardId = shardId props, pushedStreamName = streamName props,
                withSetCheckpoint = False, withContinuePolling = True \<rparr>)])"
    using assms(1,2,6,7) el unfolding deliver_def Let_def by (simp split: if_splits)
  then show ?thesis
    using assms(3,4,5) by (simp add: pollBody_def)
qed

lemma stashed_checkpoint_first:
  assumes "seqNumToCheckpoint st = Some seq" "seq \<noteq> []"
    and "\<not> dateNow io > leaseExpiration st"
    and "pollForRecords props (io # ios) st = Some (st', evs)"
  shows "\<exists>rest. evs = CallStoreShardCheckpoint (shardId props) seq # rest"
proof -
  obtain r st1 evs1 where s: "storeStashed props io st = (r, st1, evs1)"
    by (cases "storeStashed props io st") auto
  have e1: "\<exists>rest. evs1 = CallStoreShardCheckpoint (shardId props) seq # rest"
    using s assms(1,2) by (auto simp: storeStashed_def setCheckpoint_def split: option.splits)
  obtain r2 st2 evs2 where f: "fetchRecords props io st = (r2, st2, evs2)"
    by (cases "fetchRecords props io st") auto
  have e2: "\<exists>rest. evs2 = CallStoreShardCheckpoint (shardId props) seq # rest"
    using f s e1 by (auto simp: fetchRecords_def split: sum.splits prod.splits)
  obtain r3 st3 evs3 where b: "pollBody props io st = (r3, st3, evs3)"
    by (cases "pollBody props io st") auto
  have e3: "\<exists>rest. evs3 = CallStoreShardCheckpoint (shardId props) seq # rest"
    using b f e2 assms(3) by (auto simp: pollBody_def split: sum.splits prod.splits if_splits)
  show ?thesis
    using assms(4) b e3 by (auto split: sum.splits if_splits option.splits)
qed

section \<open>Polling: the order of the checkpoints\<close>

text \<open>
  Claim C4 on a closed shard, with automatic checkpoints and paused polling. The service
  answers every request with the records that follow the requested position, in order.
  The second activation delivers the last records of the shard, stashes 54 and keeps no
  iterator. The third activation stores 54 and then asks for an iterator after 51, the
  checkpoint it read on entry, so that the records 52 and 53 are delivered again and 53 is
  stashed; the fourth stores 53. The checkpoints stored are 51, 54 and 53.
\<close>

theorem stale_checkpoint_reread:
  "written (run demoConsumerProps
      [Poll [closedShardIo], Poll [closedShardIo], Poll [closedShardIo], Poll [closedShardIo]]
      freshState) = [''51'', ''54'', ''53''] \<and>
   \<not> seqLe ''54'' ''53'' \<and>
   pollForRecords demoConsumerProps [closedShardIo]
     \<lparr> checkpoint = Some ''51'', iterator = Undefined, seqNumToCheckpoint = Some ''54'',
       leaseExpiration = 300000, timeoutId = None \<rparr> =
     Some (\<lparr> checkpoint = Some ''54'', iterator = Defined ''it-d'',
             seqNumToCheckpoint = Some ''53'', leaseExpiration = 300000, timeoutId = None \<rparr>,
           [CallStoreShardCheckpoint ''shardId-0'' ''54'',
            CallGetShardIterator
              \<lparr> ShardId = ''shardId-0'', ShardIteratorType = ''AFTER_SEQUENCE_NUMBER'',
                StreamName = ''s'', StartingSequenceNumber = Some ''51'' \<rparr>,
            CallGetRecords 100 ''it-c'',
            CallPushToStream (Inr
              \<lparr> millisBehindLatest = Defined 300,
                records = [\<lparr> sequenceNumber = ''52'', userData = ''c'' \<rparr>,
                           \<lparr> sequenceNumber = ''53'', userData = ''d'' \<rparr>],
                pushedShardId = ''shardId-0'', pushedStreamName = ''s'',
                withSetCheckpoint = False, withContinuePolling = True \<rparr>)])"
proof -
  have a1: "pollForRecords demoConsumerProps [closedShardIo] freshState =
      Some (\<lparr> checkpoint = Some ''49'', iterator = Defined ''it-b'',
             seqNumToCheckpoint = Some ''51'', leaseExpiration = 300000, timeoutId = None \<rparr>,
           [CallGetShardIterator
              \<lparr> ShardId = ''shardId-0'', ShardIteratorType = ''AFTER_SEQUENCE_NUMBER'',
                StreamName = ''s'', StartingSequenceNumber = Some ''49'' \<rparr>,
            CallGetRecords 100 ''it-a'',
            CallPushToStream (Inr
              \<lparr> millisBehindLatest = Defined 900,
                records = [\<lparr> sequenceNumber = ''50'', userData = ''a'' \<rparr>,
                           \<lparr> sequenceNumber = ''51'', userData = ''b'' \<rparr>],
                pushedShardId = ''shardId-0'', pushedStreamName = ''s'',
                withSetCheckpoint = False, withContinuePolling = True \<rparr>)])"
    by (simp add: poll_defs closedShardIo_def closedShardIterator_def closedShardRecords_def
        demoIo_def freshState_def demoConsumerProps_def demoDecoder_def
        getShardIterator.simps iteratorParams_def)
  have a2: "pollForRecords demoConsumerProps [closedShardIo]
      \<lparr> checkpoint = Some ''49'', iterator = Defined ''it-b'',
        seqNumToCheckpoint = Some ''51'', leaseExpiration = 300000, timeoutId = None \<rparr> =
      Some (\<lparr> checkpoint = Some ''51'', iterator = Undefined,
             seqNumToCheckpoint = Some ''54'', leaseExpiration = 300000, timeoutId = None \<rparr>,
           [CallStoreShardCheckpoint ''shardId-0'' ''51'',
            CallGetRecords 100 ''it-b'',
            CallPushToStream (Inr
              \<lparr> millisBehindLatest = Defined 0,
                records = [\<lparr> sequenceNumber = ''52'', userData = ''c'' \<rparr>,
                           \<lparr> sequenceNumber = ''53'', userData = ''d'' \<rparr>,
                           \<lparr> sequenceNumber = ''54'', userData = ''e'' \<rparr>],
                pushedShardId = ''shardId-0'', pushedStreamName = ''s'',
                withSetCheckpoint = False, withContinuePolling = True \<rparr>)])"
    by (simp add: poll_defs closedShardIo_def closedShardIterator_def closedShardRecords_def
        demoIo_def demoConsumerProps_def demoDecoder_def)
  have a3: "pollForRecords demoConsumerProps [closedShardIo]
     \<lparr> checkpoint = Some ''51'', iterator = Undefined, seqNumToCheckpoint = Some ''54'',
       leaseExpiration = 300000, timeoutId = None \<rparr> =
     Some (\<lparr> checkpoint = Some ''54'', iterator = Defined ''it-d'',
             seqNumToCheckpoint = Some ''53'', leaseExpiration = 300000, timeoutId = None \<rparr>,
           [CallStoreShardCheckpoint ''shardId-0'' ''54'',
            CallGetShardIterator
              \<lparr> ShardId = ''shardId-0'', ShardIteratorType = ''AFTER_SEQUENCE_NUMBER'',
                StreamName = ''s'', StartingSequenceNumber = Some ''51'' \<rparr>,
            CallGetRecords 100 ''it-c'',
            CallPushToStream (Inr
              \<lparr> millisBehindLatest = Defined 300,
                records = [\<lparr> sequenceNumber = ''52'', userData = ''c'' \<rparr>,
                           \<lparr> sequenceNumber = ''53'', userData = ''d'' \<rparr>],
                pushedShardId = ''shardId-0'', pushedStreamName = ''s'',
                withSetCheckpoint = False, withContinuePolling = True \<rparr>)])"
    by (simp add: poll_defs closedShardIo_def closedShardIterator_def closedShardRecords_def
        demoIo_def demoConsumerProps_def demoDecoder_def
        getShardIterator.simps iteratorParams_def)
  have a4: "pollForRecords demoConsumerProps [closedShardIo]
      \<lparr> checkpoint = Some ''54'', iterator = Defined ''it-d'',
        seqNumToCheckpoint = Some ''53'', leaseExpiration = 300000, timeoutId = None \<rparr> =
      Some (\<lparr> checkpoint = Some ''53'', iterator = Undefined,
             seqNumToCheckpoint = Some ''54'', leaseExpiration = 300000, timeoutId = None \<rparr>,
           [CallStoreShardCheckpoint ''shardId-0'' ''53'',
            CallGetRecords 100 ''it-d'',
            CallPushToStream (Inr
              \<lparr> millisBehindLatest = Defined 0,
                records = [\<lparr> sequenceNumber = ''54'', userData = ''e'' \<rparr>],
                pushedShardId = ''shardId-0'', pushedStreamName = ''s'',
                withSetCheckpoint = False, withContinuePolling = True \<rparr>)])"
    by (simp add: poll_defs closedShardIo_def closedShardIterator_def closedShardRecords_def
        demoIo_def demoConsumerProps_def demoDecoder_def)
  have w: "written (run demoConsumerProps
      [Poll [closedShardIo], Poll [closedShardIo], Poll [closedShardIo], Poll [closedShardIo]]
      freshState) = [''51'', ''54'', ''53'']"
    by (simp add: a1 a2 a3 a4 del: pollForRecords.simps)
  have n: "\<not> seqLe ''54'' ''53''"
    by (simp add: seqLe_def seqNum_def)
  show ?thesis
    using w n a3 by simp
qed

end
